theory Spec2Isabelle
  imports Complex_Main
begin

section \<open>Numbers\<close>

text \<open>
  The program computes with JavaScript numbers.  Coordinates, lengths, distances and
  colours are modelled as exact reals (rounding of the fractional arithmetic is not
  modelled).  Two places need more of the number type and are modelled with it:
  the state of the random source, which holds integer values beyond \<open>2^53\<close>, where
  products are rounded, and the bounds computation, which starts from
  \<open>Infinity\<close> and divides by a width that may be zero.
\<close>

datatype number = NaN | NegInf | Fin real | PosInf









section \<open>Data model\<close>

record vector2 =
  x :: real
  y :: real

definition Vector2 :: "real \<Rightarrow> real \<Rightarrow> vector2" where
  "Vector2 px py = \<lparr>x = px, y = py\<rparr>"

record color =
  r :: real
  g :: real
  b :: real
  a :: real

text \<open>The kinds of both archetypes: pine has leaf and fruit, sunflower leaf, petal and seed.\<close>

datatype entity_type = Leaf | Fruit | Petal | Seed

record entity =
  center :: vector2
  radius :: real
  baseColor :: color
  highlightColor :: color
  etype :: entity_type
  edistFromRoot :: real
  opacity :: "real option"

datatype branch = Branch
  (start: vector2) (endp: vector2) (strokeWidth: real) (control: vector2)
  (blength: real) (distFromRoot: real) (children: "branch list") (entities: "entity list")

record simpleBranch =
  sstart :: vector2
  send :: vector2
  sstrokeWidth :: real
  scontrol :: vector2


section \<open>The seeded random source\<close>

text \<open>
  The state is an integer-valued double.  \<open>roundDouble\<close> rounds a natural number to
  the nearest double (53 bits of mantissa, ties to even), which is what a product or
  a sum beyond \<open>2^53\<close> becomes.
\<close>

fun bitlen :: "nat \<Rightarrow> nat" where
  "bitlen n = (if n = 0 then 0 else Suc (bitlen (n div 2)))"

declare bitlen.simps [simp del]

definition roundDouble :: "nat \<Rightarrow> nat" where
  "roundDouble n =
     (if n < 2 ^ 53 then n
      else let e = bitlen n - 53; q = n div 2 ^ e; rest = n mod 2 ^ e; half = 2 ^ (e - 1)
           in if rest < half then q * 2 ^ e
              else if half < rest then (q + 1) * 2 ^ e
              else if even q then q * 2 ^ e else (q + 1) * 2 ^ e)"

record seededRandom =
  seed :: nat

text \<open>
  The constructor hashes the seed string with SHA-256 (a library function, taken as the
  parameter \<open>sha256\<close>, the digest as a 256-bit number) and parses the first 15
  hexadecimal digits of the digest, that is its top 60 bits.
\<close>

definition SeededRandom :: "(string \<Rightarrow> nat) \<Rightarrow> string \<Rightarrow> seededRandom" where
  "SeededRandom sha256 seedString =
     \<lparr>seed = roundDouble ((sha256 seedString mod 2 ^ 256) div 2 ^ 196)\<rparr>"

definition next_seed :: "nat \<Rightarrow> nat" where
  "next_seed s = roundDouble (roundDouble (s * 1664525) + 1013904223) mod 4294967296"

definition "next" :: "seededRandom \<Rightarrow> real \<times> seededRandom" where
  "next rand = (let s = next_seed (seed rand) in (real s / 4294967296, rand\<lparr>seed := s\<rparr>))"

definition nextFloat :: "seededRandom \<Rightarrow> real \<Rightarrow> real \<Rightarrow> real \<times> seededRandom" where
  "nextFloat rand mn mx = (let (v, rand') = next rand in (mn + v * (mx - mn), rand'))"

definition nextInt :: "seededRandom \<Rightarrow> real \<Rightarrow> real \<Rightarrow> int \<times> seededRandom" where
  "nextInt rand mn mx = (let (v, rand') = nextFloat rand mn mx in (\<lfloor>v\<rfloor>, rand'))"

section \<open>Helpers\<close>

definition coerceIn :: "real \<Rightarrow> real \<Rightarrow> real \<Rightarrow> real" where
  "coerceIn val mn mx = max mn (min val mx)"

definition smoothStep :: "real \<Rightarrow> real" where
  "smoothStep t = t * t * (3 - 2 * t)"

section \<open>The pine generator\<close>

text \<open>
  The random source is threaded through every draw, in the order of the source.  The
  straight-line blocks of the function are definitions of their own.  The
  loop of step 4 is \<open>pineEntities\<close>, one iteration of it \<open>pineEntity\<close>; the draw
  that decides between cone and needles is made only when \<open>depth <= 4\<close>, as the
  conjunction of the source short-circuits.  The depth counter is an integer, as at
  the call of the program.
\<close>

definition pineEntity ::
  "seededRandom \<Rightarrow> vector2 \<Rightarrow> vector2 \<Rightarrow> real \<Rightarrow> int \<Rightarrow> real \<Rightarrow> entity \<times> seededRandom" where
  "pineEntity rand st en len depth currentDist =
     (let (radius0, rand1) = nextFloat rand 15 25;
          (t, rand2) = nextFloat rand1 0.1 1.0;
          px = (1 - t) * x st + t * x en;
          py = (1 - t) * y st + t * y en;
          (offsetX, rand3) = nextFloat rand2 (-15) 15;
          (offsetY, rand4) = nextFloat rand3 (-15) 15;
          eX = px + offsetX;
          eY = py + offsetY;
          entityDist = currentDist + (len * t);
          (isCone, rand5) =
            (if depth \<le> 4 then (let (c, rand') = nextFloat rand4 0 1 in (c > 0.92, rand'))
             else (False, rand4))
      in if isCone then
           (let (cr, rand6) = nextFloat rand5 0 40; rC = 100 + cr;
                (cg, rand7) = nextFloat rand6 0 30; gC = 70 + cg;
                (cb, rand8) = nextFloat rand7 0 20; bC = 40 + cb
            in (\<lparr>center = Vector2 eX eY, radius = radius0 * 0.9,
                  baseColor = \<lparr>r = rC, g = gC, b = bC, a = 1.0\<rparr>,
                  highlightColor = \<lparr>r = min 255 (rC + 40), g = min 255 (gC + 40),
                                    b = min 255 (bC + 40), a = 1.0\<rparr>,
                  etype = Fruit, edistFromRoot = entityDist, opacity = None\<rparr>, rand8))
         else
           (let (cr, rand6) = nextFloat rand5 0 20; rBase = 20 + cr;
                (cg, rand7) = nextFloat rand6 0 40; gBase = 60 + cg;
                (cb, rand8) = nextFloat rand7 0 20; bBase = 30 + cb
            in (\<lparr>center = Vector2 eX eY, radius = radius0,
                  baseColor = \<lparr>r = rBase, g = gBase, b = bBase, a = 1.0\<rparr>,
                  highlightColor = \<lparr>r = rBase + 30, g = gBase + 30, b = bBase + 30, a = 1.0\<rparr>,
                  etype = Leaf, edistFromRoot = entityDist, opacity = None\<rparr>, rand8)))"

definition pineEntities ::
  "seededRandom \<Rightarrow> vector2 \<Rightarrow> vector2 \<Rightarrow> real \<Rightarrow> int \<Rightarrow> real \<Rightarrow> entity list \<times> seededRandom" where
  "pineEntities rand st en len depth currentDist =
     (if depth \<le> 5 then
        (let (count, rand1) = nextInt rand 6 10
         in fold (\<lambda>i (es, rnd). let (e, rnd') = pineEntity rnd st en len depth currentDist
                                in (es @ [e], rnd'))
              [0..<nat count] ([], rand1))
      else ([], rand))"

text \<open>Steps 1 and 2 of a segment: end point, control point and stroke width.\<close>

definition pineSegment ::
  "seededRandom \<Rightarrow> vector2 \<Rightarrow> real \<Rightarrow> real \<Rightarrow> int \<Rightarrow> vector2 \<times> vector2 \<times> real \<times> seededRandom" where
  "pineSegment rand st len angle depth =
     (let (angleOffset, rand1) = nextFloat rand (-10) 10;
          radAngle = (angle + angleOffset) * (pi / 180);
          endX = x st + len * cos radAngle;
          endY = y st + len * sin radAngle;
          en = Vector2 endX endY;
          dx = x en - x st;
          dy = y en - y st;
          mid = Vector2 (x st + dx * 0.5) (y st + dy * 0.5);
          (pl, rand2) = nextFloat rand1 (-0.05) 0.05;
          perpLen = pl * len;
          branchLength = sqrt (dx * dx + dy * dy);
          perpX = (if branchLength \<noteq> 0 then (- dy / branchLength) * perpLen else 0);
          perpY = (if branchLength \<noteq> 0 then (dx / branchLength) * perpLen else 0);
          ctl = Vector2 (x mid + perpX) (y mid + perpY);
          (sw, rand3) = nextFloat rand2 (-1) 1;
          stroke = max 2 (real_of_int depth * 5 + sw)
      in (en, ctl, stroke, rand3))"

text \<open>The angle and length of the central leader, and of one side branch.\<close>

definition leaderParams :: "seededRandom \<Rightarrow> real \<Rightarrow> real \<Rightarrow> real \<times> real \<times> seededRandom" where
  "leaderParams rand angle len =
     (let (da, rand1) = nextFloat rand (-10) 10;
          newAngle = angle + da;
          (fl, rand2) = nextFloat rand1 0.85 0.95;
          newLength = len * fl
      in (newAngle, newLength, rand2))"

definition sideParams :: "seededRandom \<Rightarrow> real \<Rightarrow> real \<Rightarrow> real \<times> real \<times> seededRandom" where
  "sideParams rand angle len =
     (let (sd, rand1) = nextFloat rand 0 1;
          sideDir = (if sd > 0.5 then 1 else -1);
          (av, rand2) = nextFloat rand1 60 85;
          angleVariation = av * sideDir;
          newAngle = angle + angleVariation;
          (nl, rand3) = nextFloat rand2 0.5 0.7;
          newLength = len * nl
      in (newAngle, newLength, rand3))"

fun generateFullTree ::
  "seededRandom \<Rightarrow> vector2 \<Rightarrow> real \<Rightarrow> real \<Rightarrow> int \<Rightarrow> real \<Rightarrow> branch \<times> seededRandom" where
  "generateFullTree rand st len angle depth currentDist =
     (let (en, ctl, stroke, rand3) = pineSegment rand st len angle depth;
          (chs, rand4) =
            (if depth > 0 then
               (let (leaderAngle, leaderLength, rnd2) = leaderParams rand3 angle len;
                    (leader, rnd3) =
                      generateFullTree rnd2 en leaderLength leaderAngle (depth - 1)
                        (currentDist + len);
                    (sideBranchCount, rnd4) = nextInt rnd3 1 3
                in fold (\<lambda>i (cs, rnd).
                     let (newAngle, newLength, rndC) = sideParams rnd angle len
                     in if depth > 1 then
                          (let (c, rndD) =
                                 generateFullTree rndC en newLength newAngle (depth - 1)
                                   (currentDist + len)
                           in (cs @ [c], rndD))
                        else (cs, rndC))
                   [0..<nat sideBranchCount] ([leader], rnd4))
             else ([], rand3));
          (ents, rand5) = pineEntities rand4 st en len depth currentDist
      in (Branch st en stroke ctl len currentDist chs ents, rand5))"

declare generateFullTree.simps [simp del]


section \<open>The sunflower generator\<close>



definition seedCount :: nat where
  "seedCount = 150"






section \<open>Bounds and auto-fit\<close>




lemma size_children [termination_simp]: "c \<in> set (children br) \<Longrightarrow> size c < size br"
  by (cases br) (auto simp: less_Suc_eq_le dest: size_list_estimation')



datatype archetype = Pine | Sunflower



record fit =
  finalScale :: number
  offsetX :: number
  offsetY :: number

datatype error = ConfigurationError




section \<open>The growth flattening projector\<close>

text \<open>
  The truncation parameter of a branch at a progress distance.  The quotient is the
  real one; a branch of length zero is treated where the projector uses it.
\<close>

definition localT :: "branch \<Rightarrow> real \<Rightarrow> real" where
  "localT br progressDistance =
     coerceIn ((progressDistance - distFromRoot br) / blength br) 0 1"

text \<open>Pine tapers the visible stroke with growth, sunflower holds it.\<close>

definition visibleStroke :: "archetype \<Rightarrow> branch \<Rightarrow> real \<Rightarrow> real \<Rightarrow> real" where
  "visibleStroke arch br scale lt =
     (case arch of Pine \<Rightarrow> strokeWidth br * scale * lt | Sunflower \<Rightarrow> strokeWidth br * scale)"

definition fadeSpeed :: "archetype \<Rightarrow> entity \<Rightarrow> real" where
  "fadeSpeed arch e =
     (case arch of Pine \<Rightarrow> 150 | Sunflower \<Rightarrow> (if etype e = Seed then 50 else 150))"

definition fadeOpacity :: "real \<Rightarrow> entity \<Rightarrow> real \<Rightarrow> real" where
  "fadeOpacity speed e progressDistance =
     (let age = progressDistance - edistFromRoot e;
          fadeP = coerceIn (age / speed) 0 1
      in smoothStep fadeP)"

definition flattenEntity ::
  "archetype \<Rightarrow> real \<Rightarrow> real \<Rightarrow> real \<Rightarrow> real \<Rightarrow> entity \<Rightarrow> entity list \<Rightarrow> entity list" where
  "flattenEntity arch progressDistance scale oX oY e entityList =
     (if progressDistance > edistFromRoot e then
        (let opa = fadeOpacity (fadeSpeed arch e) e progressDistance
         in if opa > 0.01 then
              entityList @
                [e\<lparr>center := Vector2 (x (center e) * scale + oX) (y (center e) * scale + oY),
                   radius := radius e * scale,
                   opacity := Some opa\<rparr>]
            else entityList)
      else entityList)"

text \<open>
  What the projector does at one branch, before it visits the children.  With
  \<open>progressDistance > startDist\<close> a length of zero makes the quotient \<open>Infinity\<close>,
  which \<open>coerceIn\<close> brings to 1.
\<close>

definition flattenBranch ::
  "archetype \<Rightarrow> real \<Rightarrow> real \<Rightarrow> real \<Rightarrow> real \<Rightarrow> branch \<Rightarrow>
     simpleBranch list \<times> entity list \<Rightarrow> simpleBranch list \<times> entity list" where
  "flattenBranch arch progressDistance scale oX oY br outs =
     (let (branchList, entityList) = outs;
          tStart = Vector2 (x (start br) * scale + oX) (y (start br) * scale + oY);
          tEnd = Vector2 (x (endp br) * scale + oX) (y (endp br) * scale + oY);
          tControl = Vector2 (x (control br) * scale + oX) (y (control br) * scale + oY);
          startDist = distFromRoot br
      in if progressDistance > startDist then
           (let lt = (if blength br = 0 then 1 else localT br progressDistance)
            in if lt > 0 then
                 (let omt = 1 - lt;
                      curControlX = omt * x tStart + lt * x tControl;
                      curControlY = omt * y tStart + lt * y tControl;
                      q1X = omt * x tControl + lt * x tEnd;
                      q1Y = omt * y tControl + lt * y tEnd;
                      curEndX = omt * curControlX + lt * q1X;
                      curEndY = omt * curControlY + lt * q1Y
                  in (branchList @
                        [\<lparr>sstart = tStart, send = Vector2 curEndX curEndY,
                          sstrokeWidth = visibleStroke arch br scale lt,
                          scontrol = Vector2 curControlX curControlY\<rparr>],
                      fold (flattenEntity arch progressDistance scale oX oY) (entities br)
                        entityList))
               else (branchList, entityList))
         else (branchList, entityList))"

text \<open>
  The two output lists are the mutable arguments of the source; here they are passed
  in and returned.
\<close>

fun flattenTreeOrganic ::
  "archetype \<Rightarrow> branch \<Rightarrow> simpleBranch list \<times> entity list \<Rightarrow> real \<Rightarrow> real \<Rightarrow> real \<Rightarrow> real \<Rightarrow>
     simpleBranch list \<times> entity list" where
  "flattenTreeOrganic arch br outs progressDistance scale oX oY =
     fold (\<lambda>child acc. flattenTreeOrganic arch child acc progressDistance scale oX oY)
       (children br) (flattenBranch arch progressDistance scale oX oY br outs)"

declare flattenTreeOrganic.simps [simp del]

text \<open>What one branch alone contributes, and what a whole tree contributes, to empty lists.\<close>

definition branchOutput ::
  "archetype \<Rightarrow> real \<Rightarrow> real \<Rightarrow> real \<Rightarrow> real \<Rightarrow> branch \<Rightarrow> simpleBranch list \<times> entity list" where
  "branchOutput arch p s ox oy br = flattenBranch arch p s ox oy br ([], [])"

text \<open>Whether the projector draws a branch at a progress distance.\<close>

definition branchVisible :: "branch \<Rightarrow> real \<Rightarrow> bool" where
  "branchVisible br p = (distFromRoot br < p \<and> (blength br = 0 \<or> 0 < localT br p))"

section \<open>The structure of a tree\<close>

text \<open>Every branch of a tree, the root first, then the subtrees from left to right.\<close>

fun allBranches :: "branch \<Rightarrow> branch list" where
  "allBranches br = br # concat (map allBranches (children br))"

declare allBranches.simps [simp del]

text \<open>Where the children of a generated pine branch come from.\<close>

definition pineChild :: "vector2 \<Rightarrow> real \<Rightarrow> int \<Rightarrow> real \<Rightarrow> branch \<Rightarrow> bool" where
  "pineChild en len depth cdist c =
     (\<exists>rnd len' angle' f. c = fst (generateFullTree rnd en len' angle' (depth - 1) (cdist + len))
        \<and> 0 < depth \<and> len' = len * f \<and> 0.5 \<le> f \<and> f < 0.95)"


section \<open>What it means for bounds to enclose a tree\<close>








section \<open>The growth-distance budget\<close>






section \<open>Example structures\<close>

definition stick :: branch where
  "stick = Branch (Vector2 0 0) (Vector2 0 10) 2 (Vector2 0 5) 10 0 [] []"

definition needle :: entity where
  "needle = \<lparr>center = Vector2 3 4, radius = 20,
              baseColor = \<lparr>r = 20, g = 60, b = 30, a = 1\<rparr>,
              highlightColor = \<lparr>r = 50, g = 90, b = 60, a = 1\<rparr>,
              etype = Leaf, edistFromRoot = 100, opacity = None\<rparr>"

definition lateParent :: branch where
  "lateParent = Branch (Vector2 0 0) (Vector2 0 5) 2 (Vector2 0 2) 5 10
                  [Branch (Vector2 0 5) (Vector2 0 10) 2 (Vector2 0 7) 5 0 [] []] []"

definition twig :: branch where
  "twig = Branch (Vector2 0 0) (Vector2 0 10) 2 (Vector2 0 5) 10 0 [] [needle]"


section \<open>Binary64 rounding\<close>

text \<open>
  The arithmetic of the program is binary64: the result of every operation is the exact
  result rounded to the nearest number with 53 significant bits, ties to the even one.
  \<open>bexp\<close> is the binary exponent of a positive number, \<open>rne\<close> rounds to the nearest
  integer, ties to even, and \<open>fl\<close> rounds a real number to binary64.  Underflow to
  subnormal numbers and overflow to \<open>Infinity\<close> are left out: \<open>fl\<close> agrees with binary64
  for results between \<open>2^-1022\<close> and \<open>2^1024\<close> in magnitude.
\<close>

function bexp :: "real \<Rightarrow> int" where
  "bexp v = (if v \<le> 0 then 0
             else if 2 \<le> v then bexp (v / 2) + 1
             else if v < 1 then bexp (v * 2) - 1
             else 0)"
  by pat_completeness auto
termination
proof (relation "measure (\<lambda>v. nat \<bar>\<lfloor>log 2 v\<rfloor>\<bar>)")
  show "wf (measure (\<lambda>v. nat \<bar>\<lfloor>log 2 v\<rfloor>\<bar>))" by simp
next
  fix v :: real
  assume "\<not> v \<le> 0" and "2 \<le> v"
  then have "log 2 (v / 2) = log 2 v - 1" by (simp add: log_divide)
  moreover have "1 \<le> log 2 v" using \<open>2 \<le> v\<close> by (simp add: le_log_iff)
  ultimately show "(v / 2, v) \<in> measure (\<lambda>v. nat \<bar>\<lfloor>log 2 v\<rfloor>\<bar>)"
    by (simp add: le_floor_iff)
next
  fix v :: real
  assume pos: "\<not> v \<le> 0" and "\<not> 2 \<le> v" and "v < 1"
  then have "log 2 (v * 2) = log 2 v + 1" by (simp add: log_mult)
  moreover have "log 2 v < 0" using pos \<open>v < 1\<close> by simp
  then have "\<lfloor>log 2 v\<rfloor> < 0" by (simp add: floor_less_iff)
  ultimately have "nat \<bar>\<lfloor>log 2 (v * 2)\<rfloor>\<bar> < nat \<bar>\<lfloor>log 2 v\<rfloor>\<bar>"
    by (simp only: floor_add_int floor_one add.commute) linarith
  then show "(v * 2, v) \<in> measure (\<lambda>v. nat \<bar>\<lfloor>log 2 v\<rfloor>\<bar>)"
    by simp
qed

declare bexp.simps [simp del]

definition rne :: "real \<Rightarrow> int" where
  "rne v = (let f = \<lfloor>v\<rfloor>; d = v - of_int f
            in if d < 1 / 2 then f else if 1 / 2 < d then f + 1
               else if even f then f else f + 1)"

definition fl :: "real \<Rightarrow> real" where
  "fl v = (if v = 0 then 0
           else let k = bexp \<bar>v\<bar> - 52 in of_int (rne (v / 2 powi k)) * 2 powi k)"

text \<open>The four operations, and a decimal literal of the source.\<close>

definition dadd :: "real \<Rightarrow> real \<Rightarrow> real" where
  "dadd u v = fl (u + v)"

definition dsub :: "real \<Rightarrow> real \<Rightarrow> real" where
  "dsub u v = fl (u - v)"

definition dmul :: "real \<Rightarrow> real \<Rightarrow> real" where
  "dmul u v = fl (u * v)"

definition ddiv :: "real \<Rightarrow> real \<Rightarrow> real" where
  "ddiv u v = fl (u / v)"

definition dlit :: "real \<Rightarrow> real" where
  "dlit c = fl c"

section \<open>The fade of an entity in binary64\<close>

text \<open>The easing and the fade of an entity as binary64 computes them.\<close>

definition smoothStepD :: "real \<Rightarrow> real" where
  "smoothStepD t = dmul (dmul t t) (dsub 3 (dmul 2 t))"

definition fadeFractionD :: "real \<Rightarrow> entity \<Rightarrow> real \<Rightarrow> real" where
  "fadeFractionD speed e progressDistance =
     (let age = dsub progressDistance (edistFromRoot e);
          fadeP = ddiv age speed
      in coerceIn fadeP 0 1)"

definition fadeOpacityD :: "real \<Rightarrow> entity \<Rightarrow> real \<Rightarrow> real" where
  "fadeOpacityD speed e progressDistance = smoothStepD (fadeFractionD speed e progressDistance)"

definition flattenEntityD ::
  "archetype \<Rightarrow> real \<Rightarrow> real \<Rightarrow> real \<Rightarrow> real \<Rightarrow> entity \<Rightarrow> entity list \<Rightarrow> entity list" where
  "flattenEntityD arch progressDistance scale oX oY e entityList =
     (if progressDistance > edistFromRoot e then
        (let opa = fadeOpacityD (fadeSpeed arch e) e progressDistance
         in if opa > dlit 0.01 then
              entityList @
                [e\<lparr>center := Vector2 (dadd (dmul (x (center e)) scale) oX)
                                    (dadd (dmul (y (center e)) scale) oY),
                   radius := dmul (radius e) scale,
                   opacity := Some opa\<rparr>]
            else entityList)
      else entityList)"

section \<open>The generators in binary64\<close>

text \<open>
  The generators once more, with every arithmetic operation of the source rounded to
  binary64 (\<open>dadd\<close>, \<open>dsub\<close>, \<open>dmul\<close>, \<open>ddiv\<close>) and every decimal literal that
  is not an integer read as the nearest binary64 number (\<open>dlit\<close>).  The random source is
  the method \<open>next\<close> of the object \<open>rand\<close>, a parameter \<open>nxt\<close> acting on a state; the
  library functions \<open>Math.cos\<close>, \<open>Math.sin\<close> and \<open>Math.sqrt\<close>, whose results the
  language leaves to the implementation, are parameters as well.  \<open>Math.PI\<close> is the
  binary64 number nearest to the circle constant.
\<close>

record mathLib =
  mcos :: "real \<Rightarrow> real"
  msin :: "real \<Rightarrow> real"
  msqrt :: "real \<Rightarrow> real"

definition MathPI :: real where
  "MathPI = 884279719003555 / 281474976710656"

definition nextFloatD :: "('s \<Rightarrow> real \<times> 's) \<Rightarrow> 's \<Rightarrow> real \<Rightarrow> real \<Rightarrow> real \<times> 's" where
  "nextFloatD nxt rand mn mx =
     (let (v, rand') = nxt rand in (dadd mn (dmul v (dsub mx mn)), rand'))"

definition nextIntD :: "('s \<Rightarrow> real \<times> 's) \<Rightarrow> 's \<Rightarrow> real \<Rightarrow> real \<Rightarrow> int \<times> 's" where
  "nextIntD nxt rand mn mx = (let (v, rand') = nextFloatD nxt rand mn mx in (\<lfloor>v\<rfloor>, rand'))"

definition pineEntityD ::
  "('s \<Rightarrow> real \<times> 's) \<Rightarrow> 's \<Rightarrow> vector2 \<Rightarrow> vector2 \<Rightarrow> real \<Rightarrow> int \<Rightarrow> real \<Rightarrow> entity \<times> 's" where
  "pineEntityD nxt rand st en len depth currentDist =
     (let (radius0, rand1) = nextFloatD nxt rand 15 25;
          (t, rand2) = nextFloatD nxt rand1 (dlit 0.1) 1;
          px = dadd (dmul (dsub 1 t) (x st)) (dmul t (x en));
          py = dadd (dmul (dsub 1 t) (y st)) (dmul t (y en));
          (offsetX, rand3) = nextFloatD nxt rand2 (-15) 15;
          (offsetY, rand4) = nextFloatD nxt rand3 (-15) 15;
          eX = dadd px offsetX;
          eY = dadd py offsetY;
          entityDist = dadd currentDist (dmul len t);
          (isCone, rand5) =
            (if depth \<le> 4 then (let (c, rand') = nextFloatD nxt rand4 0 1 in (c > dlit 0.92, rand'))
             else (False, rand4))
      in if isCone then
           (let (cr, rand6) = nextFloatD nxt rand5 0 40; rC = dadd 100 cr;
                (cg, rand7) = nextFloatD nxt rand6 0 30; gC = dadd 70 cg;
                (cb, rand8) = nextFloatD nxt rand7 0 20; bC = dadd 40 cb
            in (\<lparr>center = Vector2 eX eY, radius = dmul radius0 (dlit 0.9),
                  baseColor = \<lparr>r = rC, g = gC, b = bC, a = 1\<rparr>,
                  highlightColor = \<lparr>r = min 255 (dadd rC 40), g = min 255 (dadd gC 40),
                                    b = min 255 (dadd bC 40), a = 1\<rparr>,
                  etype = Fruit, edistFromRoot = entityDist, opacity = None\<rparr>, rand8))
         else
           (let (cr, rand6) = nextFloatD nxt rand5 0 20; rBase = dadd 20 cr;
                (cg, rand7) = nextFloatD nxt rand6 0 40; gBase = dadd 60 cg;
                (cb, rand8) = nextFloatD nxt rand7 0 20; bBase = dadd 30 cb
            in (\<lparr>center = Vector2 eX eY, radius = radius0,
                  baseColor = \<lparr>r = rBase, g = gBase, b = bBase, a = 1\<rparr>,
                  highlightColor = \<lparr>r = dadd rBase 30, g = dadd gBase 30, b = dadd bBase 30,
                                    a = 1\<rparr>,
                  etype = Leaf, edistFromRoot = entityDist, opacity = None\<rparr>, rand8)))"

definition pineEntitiesD ::
  "('s \<Rightarrow> real \<times> 's) \<Rightarrow> 's \<Rightarrow> vector2 \<Rightarrow> vector2 \<Rightarrow> real \<Rightarrow> int \<Rightarrow> real \<Rightarrow> entity list \<times> 's" where
  "pineEntitiesD nxt rand st en len depth currentDist =
     (if depth \<le> 5 then
        (let (count, rand1) = nextIntD nxt rand 6 10
         in fold (\<lambda>i (es, rnd). let (e, rnd') = pineEntityD nxt rnd st en len depth currentDist
                                in (es @ [e], rnd'))
              [0..<nat count] ([], rand1))
      else ([], rand))"

definition pineSegmentD ::
  "('s \<Rightarrow> real \<times> 's) \<Rightarrow> mathLib \<Rightarrow> 's \<Rightarrow> vector2 \<Rightarrow> real \<Rightarrow> real \<Rightarrow> int
     \<Rightarrow> vector2 \<times> vector2 \<times> real \<times> 's" where
  "pineSegmentD nxt M rand st len angle depth =
     (let (angleOffset, rand1) = nextFloatD nxt rand (-10) 10;
          radAngle = dmul (dadd angle angleOffset) (ddiv MathPI 180);
          endX = dadd (x st) (dmul len (mcos M radAngle));
          endY = dadd (y st) (dmul len (msin M radAngle));
          en = Vector2 endX endY;
          dx = dsub (x en) (x st);
          dy = dsub (y en) (y st);
          mid = Vector2 (dadd (x st) (dmul dx (dlit 0.5))) (dadd (y st) (dmul dy (dlit 0.5)));
          (pl, rand2) = nextFloatD nxt rand1 (- dlit 0.05) (dlit 0.05);
          perpLen = dmul pl len;
          branchLength = msqrt M (dadd (dmul dx dx) (dmul dy dy));
          perpX = (if branchLength \<noteq> 0 then dmul (ddiv (- dy) branchLength) perpLen else 0);
          perpY = (if branchLength \<noteq> 0 then dmul (ddiv dx branchLength) perpLen else 0);
          ctl = Vector2 (dadd (x mid) perpX) (dadd (y mid) perpY);
          (sw, rand3) = nextFloatD nxt rand2 (-1) 1;
          stroke = max 2 (dadd (dmul (real_of_int depth) 5) sw)
      in (en, ctl, stroke, rand3))"

definition leaderParamsD ::
  "('s \<Rightarrow> real \<times> 's) \<Rightarrow> 's \<Rightarrow> real \<Rightarrow> real \<Rightarrow> real \<times> real \<times> 's" where
  "leaderParamsD nxt rand angle len =
     (let (da, rand1) = nextFloatD nxt rand (-10) 10;
          newAngle = dadd angle da;
          (f, rand2) = nextFloatD nxt rand1 (dlit 0.85) (dlit 0.95);
          newLength = dmul len f
      in (newAngle, newLength, rand2))"

definition sideParamsD ::
  "('s \<Rightarrow> real \<times> 's) \<Rightarrow> 's \<Rightarrow> real \<Rightarrow> real \<Rightarrow> real \<times> real \<times> 's" where
  "sideParamsD nxt rand angle len =
     (let (sd, rand1) = nextFloatD nxt rand 0 1;
          sideDir = (if sd > dlit 0.5 then 1 else -1);
          (av, rand2) = nextFloatD nxt rand1 60 85;
          angleVariation = dmul av sideDir;
          newAngle = dadd angle angleVariation;
          (nl, rand3) = nextFloatD nxt rand2 (dlit 0.5) (dlit 0.7);
          newLength = dmul len nl
      in (newAngle, newLength, rand3))"

fun generateFullTreeD ::
  "('s \<Rightarrow> real \<times> 's) \<Rightarrow> mathLib \<Rightarrow> 's \<Rightarrow> vector2 \<Rightarrow> real \<Rightarrow> real \<Rightarrow> int \<Rightarrow> real \<Rightarrow> branch \<times> 's" where
  "generateFullTreeD nxt M rand st len angle depth currentDist =
     (let (en, ctl, stroke, rand3) = pineSegmentD nxt M rand st len angle depth;
          (chs, rand4) =
            (if depth > 0 then
               (let (leaderAngle, leaderLength, rnd2) = leaderParamsD nxt rand3 angle len;
                    (leader, rnd3) =
                      generateFullTreeD nxt M rnd2 en leaderLength leaderAngle (depth - 1)
                        (dadd currentDist len);
                    (sideBranchCount, rnd4) = nextIntD nxt rnd3 1 3
                in fold (\<lambda>i (cs, rnd).
                     let (newAngle, newLength, rndC) = sideParamsD nxt rnd angle len
                     in if depth > 1 then
                          (let (c, rndD) =
                                 generateFullTreeD nxt M rndC en newLength newAngle (depth - 1)
                                   (dadd currentDist len)
                           in (cs @ [c], rndD))
                        else (cs, rndC))
                   [0..<nat sideBranchCount] ([leader], rnd4))
             else ([], rand3));
          (ents, rand5) = pineEntitiesD nxt rand4 st en len depth currentDist
      in (Branch st en stroke ctl len currentDist chs ents, rand5))"

declare generateFullTreeD.simps [simp del]

definition sunflowerLeafD ::
  "('s \<Rightarrow> real \<times> 's) \<Rightarrow> 's \<Rightarrow> vector2 \<Rightarrow> vector2 \<Rightarrow> real \<Rightarrow> int \<Rightarrow> real \<Rightarrow> entity \<times> 's" where
  "sunflowerLeafD nxt rand st en len segmentsLeft currentDist =
     (let isLeft = (segmentsLeft mod 2 = 0);
          leafDir = (if isLeft then -1 else 1);
          leafStart = Vector2 (dadd (dmul (x st) (dlit 0.5)) (dmul (x en) (dlit 0.5)))
                              (dadd (dmul (y st) (dlit 0.5)) (dmul (y en) (dlit 0.5)));
          (leafRadius, rand1) = nextFloatD nxt rand 50 70;
          petioleLen = 40;
          leafX = dadd (x leafStart) (dmul petioleLen leafDir);
          leafY = dsub (y leafStart) 10
      in (\<lparr>center = Vector2 leafX leafY, radius = leafRadius,
            baseColor = \<lparr>r = 50, g = 120, b = 50, a = 1\<rparr>,
            highlightColor = \<lparr>r = 80, g = 160, b = 80, a = 1\<rparr>,
            etype = Leaf, edistFromRoot = dadd currentDist (dmul len (dlit 0.5)),
            opacity = None\<rparr>, rand1))"

definition sunflowerPetalD ::
  "('s \<Rightarrow> real \<times> 's) \<Rightarrow> mathLib \<Rightarrow> vector2 \<Rightarrow> int \<Rightarrow> real \<Rightarrow> nat \<Rightarrow> entity list \<times> 's
     \<Rightarrow> entity list \<times> 's" where
  "sunflowerPetalD nxt M en petalCount currentDist i acc =
     (let (es, rand) = acc;
          pAngle = dmul (dmul (ddiv (real i) (real_of_int petalCount)) MathPI) 2;
          petalRadius = 110;
          (jit, rand1) = nextFloatD nxt rand (-10) 10;
          rr = dadd petalRadius jit;
          pX = dadd (x en) (dmul (mcos M pAngle) rr);
          pY = dadd (y en) (dmul (msin M pAngle) rr);
          (rad, rand2) = nextFloatD nxt rand1 35 45
      in (es @ [\<lparr>center = Vector2 pX pY, radius = rad,
                  baseColor = \<lparr>r = 255, g = 204, b = 0, a = 1\<rparr>,
                  highlightColor = \<lparr>r = 255, g = 230, b = 100, a = 1\<rparr>,
                  etype = Petal, edistFromRoot = currentDist, opacity = None\<rparr>], rand2))"

definition sunflowerSeedD ::
  "('s \<Rightarrow> real \<times> 's) \<Rightarrow> mathLib \<Rightarrow> vector2 \<Rightarrow> real \<Rightarrow> nat \<Rightarrow> entity list \<times> 's
     \<Rightarrow> entity list \<times> 's" where
  "sunflowerSeedD nxt M en currentDist i acc =
     (let (es, rand) = acc;
          goldenAngle = dmul (dlit 137.508) (ddiv MathPI 180);
          spread = 7;
          rr = dmul spread (msqrt M (real i));
          theta = dmul (real i) goldenAngle;
          sX = dadd (x en) (dmul rr (mcos M theta));
          sY = dadd (y en) (dmul rr (msin M theta));
          isCenter = (real i < dmul (real seedCount) (dlit 0.3));
          rCol = (if isCenter then 40 else 60);
          gCol = (if isCenter then 25 else 40);
          bCol = (if isCenter then 10 else 15);
          (rad, rand1) = nextFloatD nxt rand 6 9
      in (es @ [\<lparr>center = Vector2 sX sY, radius = rad,
                  baseColor = \<lparr>r = rCol, g = gCol, b = bCol, a = 1\<rparr>,
                  highlightColor = \<lparr>r = rCol + 30, g = gCol + 20, b = bCol + 10, a = 1\<rparr>,
                  etype = Seed, edistFromRoot = dadd currentDist (dmul (real i) (dlit 0.5)),
                  opacity = None\<rparr>], rand1))"

definition sunflowerHeadD ::
  "('s \<Rightarrow> real \<times> 's) \<Rightarrow> mathLib \<Rightarrow> 's \<Rightarrow> vector2 \<Rightarrow> real \<Rightarrow> entity list \<times> 's" where
  "sunflowerHeadD nxt M rand en currentDist =
     (let (petalCount, rand1) = nextIntD nxt rand 20 30;
          petals = fold (sunflowerPetalD nxt M en petalCount currentDist) [0..<nat petalCount]
                     ([], rand1)
      in fold (sunflowerSeedD nxt M en currentDist) [0..<seedCount] petals)"

definition sunflowerSegmentD ::
  "('s \<Rightarrow> real \<times> 's) \<Rightarrow> mathLib \<Rightarrow> 's \<Rightarrow> vector2 \<Rightarrow> real \<Rightarrow> real \<Rightarrow> int
     \<Rightarrow> vector2 \<times> vector2 \<times> real \<times> 's" where
  "sunflowerSegmentD nxt M rand st len angle segmentsLeft =
     (let (angleOffset, rand1) = nextFloatD nxt rand (-5) 5;
          radAngle = dmul (dadd angle angleOffset) (ddiv MathPI 180);
          endX = dadd (x st) (dmul len (mcos M radAngle));
          endY = dadd (y st) (dmul len (msin M radAngle));
          en = Vector2 endX endY;
          midX = ddiv (dadd (x st) (x en)) 2;
          midY = ddiv (dadd (y st) (y en)) 2;
          (cx, rand2) = nextFloatD nxt rand1 (-10) 10;
          (cy, rand3) = nextFloatD nxt rand2 (-10) 10;
          ctl = Vector2 (dadd midX cx) (dadd midY cy);
          stroke = max 8 (dmul (real_of_int segmentsLeft) (dlit 3.5))
      in (en, ctl, stroke, rand3))"

fun generateSunflowerD ::
  "('s \<Rightarrow> real \<times> 's) \<Rightarrow> mathLib \<Rightarrow> 's \<Rightarrow> vector2 \<Rightarrow> real \<Rightarrow> real \<Rightarrow> int \<Rightarrow> real \<Rightarrow> branch \<times> 's" where
  "generateSunflowerD nxt M rand st len angle segmentsLeft currentDist =
     (let (en, ctl, stroke, rand3) = sunflowerSegmentD nxt M rand st len angle segmentsLeft
      in if segmentsLeft > 0 then
           (let (ents, rand4) =
                  (if segmentsLeft < 7 \<and> segmentsLeft > 1 then
                     (let (leaf, rnd) = sunflowerLeafD nxt rand3 st en len segmentsLeft currentDist
                      in ([leaf], rnd))
                   else ([], rand3));
                newLength = dmul len (dlit 0.95);
                (da, rand5) = nextFloatD nxt rand4 (-2) 2;
                (child, rand6) =
                  generateSunflowerD nxt M rand5 en newLength (dadd angle da) (segmentsLeft - 1)
                    (dadd currentDist len)
            in (Branch st en stroke ctl len currentDist [child] ents, rand6))
         else
           (let (ents, rand4) = sunflowerHeadD nxt M rand3 en currentDist
            in (Branch st en stroke ctl len currentDist [] ents, rand4)))"

declare generateSunflowerD.simps [simp del]



definition gridSource :: "('s \<Rightarrow> real \<times> 's) \<Rightarrow> bool" where
  "gridSource nxt = (\<forall>s. 0 \<le> fst (nxt s) \<and> fst (nxt s) \<le> 1 - 1 / 2 ^ 32)"

text \<open>A library that rounds the exact result to binary64.\<close>

definition roundedMath :: mathLib where
  "roundedMath = \<lparr>mcos = (\<lambda>v. fl (cos v)), msin = (\<lambda>v. fl (sin v)), msqrt = (\<lambda>v. fl (sqrt v))\<rparr>"



text \<open>
  The root segment of the pine and the flower head of the sunflower, generated from the
  seed state 42 at a given distance from the root.
\<close>

definition pineAt :: "real \<Rightarrow> branch" where
  "pineAt cdist =
     fst (generateFullTreeD next roundedMath \<lparr>seed = 42\<rparr> (Vector2 0 0) 180 (-90) 5 cdist)"

definition headAt :: "real \<Rightarrow> branch" where
  "headAt cdist =
     fst (generateSunflowerD next roundedMath \<lparr>seed = 42\<rparr> (Vector2 0 0) 120 (-90) 0 cdist)"

definition seedsOf :: "branch \<Rightarrow> entity list" where
  "seedsOf br = filter (\<lambda>e. etype e = Seed) (entities br)"

section \<open>Two runs of a generator\<close>

text \<open>
  The random source of the program is an object with one mutable field; \<open>new
  SeededRandom(S)\<close> allocates it and \<open>next\<close> assigns to the field.  A heap holds the
  source objects allocated so far.  A run of a generator takes a reference to a source
  object and works on the heap through the method \<open>next\<close> of that object.
\<close>

record heap =
  cells :: "nat \<Rightarrow> seededRandom"
  fresh :: nat

definition newSeededRandom :: "(string \<Rightarrow> nat) \<Rightarrow> string \<Rightarrow> heap \<Rightarrow> nat \<times> heap" where
  "newSeededRandom sha256 seedString h =
     (fresh h, h\<lparr>cells := (cells h)(fresh h := SeededRandom sha256 seedString),
                  fresh := Suc (fresh h)\<rparr>)"

definition nextH :: "nat \<Rightarrow> heap \<Rightarrow> real \<times> heap" where
  "nextH rand h = (let (v, r) = next (cells h rand) in (v, h\<lparr>cells := (cells h)(rand := r)\<rparr>))"

text \<open>
  The program of the claim: construct a source from the seed string and generate, then
  do both once more, in the heap that the first run has left.
\<close>

definition pineTwice ::
  "(string \<Rightarrow> nat) \<Rightarrow> string \<Rightarrow> mathLib \<Rightarrow> vector2 \<Rightarrow> real \<Rightarrow> real \<Rightarrow> int \<Rightarrow> real \<Rightarrow> heap
     \<Rightarrow> branch \<times> branch" where
  "pineTwice sha256 seedString M st len angle depth currentDist h =
     (let (rand1, h1) = newSeededRandom sha256 seedString h;
          (tree1, h2) = generateFullTreeD (nextH rand1) M h1 st len angle depth currentDist;
          (rand2, h3) = newSeededRandom sha256 seedString h2;
          (tree2, h4) = generateFullTreeD (nextH rand2) M h3 st len angle depth currentDist
      in (tree1, tree2))"

definition sunflowerTwice ::
  "(string \<Rightarrow> nat) \<Rightarrow> string \<Rightarrow> mathLib \<Rightarrow> vector2 \<Rightarrow> real \<Rightarrow> real \<Rightarrow> int \<Rightarrow> real \<Rightarrow> heap
     \<Rightarrow> branch \<times> branch" where
  "sunflowerTwice sha256 seedString M st len angle segmentsLeft currentDist h =
     (let (rand1, h1) = newSeededRandom sha256 seedString h;
          (tree1, h2) = generateSunflowerD (nextH rand1) M h1 st len angle segmentsLeft currentDist;
          (rand2, h3) = newSeededRandom sha256 seedString h2;
          (tree2, h4) = generateSunflowerD (nextH rand2) M h3 st len angle segmentsLeft currentDist
      in (tree1, tree2))"

text \<open>
  A source \<open>n1\<close> on one state space follows a source \<open>n2\<close> on another along \<open>\<alpha>\<close>: it
  gives the same draw and the states stay related.
\<close>

definition follows :: "('s \<Rightarrow> 't) \<Rightarrow> ('s \<Rightarrow> real \<times> 's) \<Rightarrow> ('t \<Rightarrow> real \<times> 't) \<Rightarrow> bool" where
  "follows \<alpha> n1 n2 = (\<forall>s. n2 (\<alpha> s) = (fst (n1 s), \<alpha> (snd (n1 s))))"

section \<open>Clamping and fading\<close>

lemma coerceIn_mono: "v1 \<le> v2 \<Longrightarrow> coerceIn v1 mn mx \<le> coerceIn v2 mn mx"
  by (simp add: coerceIn_def max_def min_def)

lemma coerceIn_unit: "0 \<le> coerceIn v 0 1 \<and> coerceIn v 0 1 \<le> 1"
  by (simp add: coerceIn_def max_def min_def)

lemma coerceIn_one_iff: "coerceIn v 0 1 = 1 \<longleftrightarrow> 1 \<le> v"
  by (simp add: coerceIn_def max_def min_def)

text \<open>
  C3: for a branch of positive length the truncation parameter \<open>localT\<close> does not
  decrease when the progress distance grows, and once it is 1 it stays 1 for every
  larger progress distance.
\<close>

theorem localT_monotone:
  assumes "0 < blength br" and "p1 < p2"
  shows "localT br p1 \<le> localT br p2 \<and>
         (\<forall>p p'. localT br p = 1 \<longrightarrow> p < p' \<longrightarrow> localT br p' = 1)"
proof
  from assms have "(p1 - distFromRoot br) / blength br \<le> (p2 - distFromRoot br) / blength br"
    by (simp add: divide_right_mono)
  then show "localT br p1 \<le> localT br p2"
    unfolding localT_def by (rule coerceIn_mono)
next
  show "\<forall>p p'. localT br p = 1 \<longrightarrow> p < p' \<longrightarrow> localT br p' = 1"
  proof (intro allI impI)
    fix p p' :: real
    assume one: "localT br p = 1" and lt: "p < p'"
    from one have "1 \<le> (p - distFromRoot br) / blength br"
      by (simp add: localT_def coerceIn_one_iff)
    moreover from lt assms(1)
    have "(p - distFromRoot br) / blength br \<le> (p' - distFromRoot br) / blength br"
      by (simp add: divide_right_mono)
    ultimately have "1 \<le> (p' - distFromRoot br) / blength br" by linarith
    then show "localT br p' = 1" by (simp add: localT_def coerceIn_one_iff)
  qed
qed

theorem localT_monotone_witness:
  "0 < blength stick \<and> (5::real) < 20 \<and> localT stick 5 \<le> localT stick 20 \<and>
   localT stick 5 = 1 / 2 \<and> localT stick 10 = 1 \<and> localT stick 20 = 1"
proof -
  have pos: "0 < blength stick" by (simp add: stick_def)
  have lt: "(5::real) < 20" by simp
  note m = localT_monotone [OF pos lt]
  have one: "localT stick 10 = 1"
    by (simp add: localT_def coerceIn_def stick_def)
  have "localT stick 20 = 1"
    using m [THEN conjunct2, rule_format, of 10 20] one by simp
  moreover have "localT stick 5 = 1 / 2"
    by (simp add: localT_def coerceIn_def stick_def)
  ultimately show ?thesis using pos lt m [THEN conjunct1] one by simp
qed

lemma smoothStep_mono:
  assumes "0 \<le> s" "s \<le> t" "t \<le> 1"
  shows "smoothStep s \<le> smoothStep t"
proof -
  define ss st tt where "ss = s * s" and "st = s * t" and "tt = t * t"
  have bnd: "st \<le> s" "st \<le> t" "ss \<le> s" "tt \<le> t"
    using assms unfolding ss_def st_def tt_def
    by (simp_all add: mult_left_le mult_right_le_one_le mult_left_le_one_le)
  have "smoothStep t - smoothStep s = (t - s) * (3 * (s + t) - 2 * (ss + st + tt))"
    by (simp add: smoothStep_def ss_def st_def tt_def algebra_simps)
  moreover have "0 \<le> 3 * (s + t) - 2 * (ss + st + tt)"
    using bnd by argo
  moreover have "0 \<le> t - s" using assms by simp
  ultimately have "0 \<le> smoothStep t - smoothStep s" by simp
  then show ?thesis by simp
qed

lemma fadeSpeed_pos: "0 < fadeSpeed arch e"
  by (cases arch) (simp_all add: fadeSpeed_def)

text \<open>In exact arithmetic the opacity does not decrease and reaches 1.\<close>

lemma fadeOpacity_exact_monotone:
  assumes "0 < speed"
  shows "(\<forall>p1 p2. p1 \<le> p2 \<longrightarrow> fadeOpacity speed e p1 \<le> fadeOpacity speed e p2) \<and>
         (\<forall>p. edistFromRoot e + speed \<le> p \<longrightarrow> fadeOpacity speed e p = 1)"
proof
  show "\<forall>p1 p2. p1 \<le> p2 \<longrightarrow> fadeOpacity speed e p1 \<le> fadeOpacity speed e p2"
  proof (intro allI impI)
    fix p1 p2 :: real
    assume "p1 \<le> p2"
    with assms have "(p1 - edistFromRoot e) / speed \<le> (p2 - edistFromRoot e) / speed"
      by (simp add: divide_right_mono)
    then have "coerceIn ((p1 - edistFromRoot e) / speed) 0 1
                 \<le> coerceIn ((p2 - edistFromRoot e) / speed) 0 1"
      by (rule coerceIn_mono)
    then show "fadeOpacity speed e p1 \<le> fadeOpacity speed e p2"
      unfolding fadeOpacity_def Let_def
      using coerceIn_unit by (intro smoothStep_mono) auto
  qed
next
  show "\<forall>p. edistFromRoot e + speed \<le> p \<longrightarrow> fadeOpacity speed e p = 1"
  proof (intro allI impI)
    fix p :: real
    assume "edistFromRoot e + speed \<le> p"
    with assms have "1 \<le> (p - edistFromRoot e) / speed"
      by (simp add: le_divide_eq)
    then have "coerceIn ((p - edistFromRoot e) / speed) 0 1 = 1"
      by (simp add: coerceIn_one_iff)
    then show "fadeOpacity speed e p = 1"
      by (simp add: fadeOpacity_def smoothStep_def)
  qed
qed

section \<open>The projector, branch by branch\<close>

lemma flattenEntity_append:
  "flattenEntity arch p s ox oy e el = el @ flattenEntity arch p s ox oy e []"
  by (simp add: flattenEntity_def Let_def)

lemma fold_flattenEntity_append:
  "fold (flattenEntity arch p s ox oy) es el = el @ fold (flattenEntity arch p s ox oy) es []"
proof (induction es arbitrary: el)
  case Nil
  show ?case by simp
next
  case (Cons e es)
  have "fold (flattenEntity arch p s ox oy) (e # es) el
          = fold (flattenEntity arch p s ox oy) es (flattenEntity arch p s ox oy e el)"
    by simp
  also have "\<dots> = flattenEntity arch p s ox oy e el @ fold (flattenEntity arch p s ox oy) es []"
    by (rule Cons.IH)
  also have "\<dots> = el @ flattenEntity arch p s ox oy e [] @ fold (flattenEntity arch p s ox oy) es []"
    by (subst flattenEntity_append) simp
  also have "flattenEntity arch p s ox oy e [] @ fold (flattenEntity arch p s ox oy) es []
               = fold (flattenEntity arch p s ox oy) es (flattenEntity arch p s ox oy e [])"
    by (rule Cons.IH [symmetric])
  finally show ?case by simp
qed

lemma flattenBranch_append:
  "flattenBranch arch p s ox oy br (bl, el)
     = (bl @ fst (branchOutput arch p s ox oy br), el @ snd (branchOutput arch p s ox oy br))"
  unfolding branchOutput_def flattenBranch_def Let_def
  by (simp add: fold_flattenEntity_append [of arch p s ox oy "entities br" el])

lemma flattenTreeOrganic_allBranches:
  "flattenTreeOrganic arch t (bl, el) p s ox oy
     = (bl @ concat (map (\<lambda>br. fst (branchOutput arch p s ox oy br)) (allBranches t)),
        el @ concat (map (\<lambda>br. snd (branchOutput arch p s ox oy br)) (allBranches t)))"
proof (induction t arbitrary: bl el rule: allBranches.induct)
  case (1 t)
  have step: "fold (\<lambda>child acc. flattenTreeOrganic arch child acc p s ox oy) cs (bl', el')
      = (bl' @ concat (map (\<lambda>br. fst (branchOutput arch p s ox oy br)) (concat (map allBranches cs))),
         el' @ concat (map (\<lambda>br. snd (branchOutput arch p s ox oy br)) (concat (map allBranches cs))))"
    if "set cs \<subseteq> set (children t)" for cs bl' el'
    using that
  proof (induction cs arbitrary: bl' el')
    case Nil
    show ?case by simp
  next
    case (Cons c cs)
    then have c: "c \<in> set (children t)" and cs: "set cs \<subseteq> set (children t)" by auto
    show ?case
      by (simp add: "1.IH" [OF c] Cons.IH [OF cs])
  qed
  have ab: "allBranches t = t # concat (map allBranches (children t))"
    by (rule allBranches.simps)
  show ?case
    by (subst flattenTreeOrganic.simps, subst flattenBranch_append)
       (simp add: step [OF subset_refl] ab)
qed

lemma branchVisible_iff: "branchVisible br p = (distFromRoot br < p \<and> 0 \<le> blength br)"
proof (cases "blength br = 0")
  case True
  then show ?thesis by (simp add: branchVisible_def)
next
  case False
  have "0 < localT br p \<longleftrightarrow> 0 < (p - distFromRoot br) / blength br"
    by (simp add: localT_def coerceIn_def max_def min_def)
  with False show ?thesis
    by (auto simp: branchVisible_def zero_less_divide_iff)
qed

lemma branchOutput_invisible:
  "\<not> branchVisible br p \<Longrightarrow> branchOutput arch p s ox oy br = ([], [])"
  by (auto simp: branchVisible_def branchOutput_def flattenBranch_def Let_def)

lemma branchOutput_visible:
  "branchVisible br p \<Longrightarrow> length (fst (branchOutput arch p s ox oy br)) = 1"
  by (auto simp: branchVisible_def branchOutput_def flattenBranch_def Let_def)

text \<open>
  C5: the output of the projector is the concatenation, over every branch of the tree
  (children included, whatever the state of their ancestors), of what that branch alone
  contributes.  A branch that is not visible (its progress has not passed its own
  \<open>distFromRoot\<close>, or its \<open>localT\<close> is not positive) contributes no segment and
  no entity; a visible one contributes exactly one segment; and visibility depends on
  the branch's own \<open>distFromRoot\<close> and length only.
\<close>

theorem flatten_branch_by_branch:
  "flattenTreeOrganic arch t ([], []) p s ox oy
     = (concat (map (\<lambda>br. fst (branchOutput arch p s ox oy br)) (allBranches t)),
        concat (map (\<lambda>br. snd (branchOutput arch p s ox oy br)) (allBranches t)))
   \<and> (\<forall>br. \<not> branchVisible br p \<longrightarrow> branchOutput arch p s ox oy br = ([], []))
   \<and> (\<forall>br. branchVisible br p \<longrightarrow> length (fst (branchOutput arch p s ox oy br)) = 1)
   \<and> (\<forall>br. branchVisible br p = (distFromRoot br < p \<and> 0 \<le> blength br))"
  using flattenTreeOrganic_allBranches [of arch t "[]" "[]" p s ox oy]
  by (simp add: branchOutput_invisible branchOutput_visible branchVisible_iff)

theorem flatten_branch_by_branch_witness:
  "\<not> branchVisible lateParent 5 \<and> branchVisible (hd (children lateParent)) 5 \<and>
   branchOutput Pine 5 1 0 0 lateParent = ([], []) \<and>
   length (fst (branchOutput Pine 5 1 0 0 (hd (children lateParent)))) = 1 \<and>
   flattenTreeOrganic Pine lateParent ([], []) 5 1 0 0
     = (fst (branchOutput Pine 5 1 0 0 (hd (children lateParent))),
        snd (branchOutput Pine 5 1 0 0 (hd (children lateParent))))"
proof -
  note th = flatten_branch_by_branch [of Pine lateParent 5 1 0 0]
  have vis: "\<not> branchVisible lateParent 5" "branchVisible (hd (children lateParent)) 5"
    using th [THEN conjunct2, THEN conjunct2, THEN conjunct2]
    by (simp_all add: lateParent_def)
  have out: "branchOutput Pine 5 1 0 0 lateParent = ([], [])"
    using th [THEN conjunct2, THEN conjunct1] vis(1) by blast
  have one: "length (fst (branchOutput Pine 5 1 0 0 (hd (children lateParent)))) = 1"
    using th [THEN conjunct2, THEN conjunct2, THEN conjunct1] vis(2) by blast
  have all: "allBranches lateParent = [lateParent, hd (children lateParent)]"
    by (simp add: lateParent_def allBranches.simps)
  have "flattenTreeOrganic Pine lateParent ([], []) 5 1 0 0
     = (fst (branchOutput Pine 5 1 0 0 (hd (children lateParent))),
        snd (branchOutput Pine 5 1 0 0 (hd (children lateParent))))"
    using th [THEN conjunct1] out by (simp add: all)
  with vis out one show ?thesis by simp
qed

lemma flattenEntity_copy:
  assumes "e' \<in> set (flattenEntity arch p s ox oy e el)"
  shows "e' \<in> set el \<or>
         (\<exists>opa. e' = e\<lparr>center := Vector2 (x (center e) * s + ox) (y (center e) * s + oy),
                        radius := radius e * s, opacity := Some opa\<rparr>)"
  using assms by (auto simp: flattenEntity_def Let_def split: if_splits)

lemma fold_flattenEntity_copy:
  assumes "e' \<in> set (fold (flattenEntity arch p s ox oy) es el)"
  shows "e' \<in> set el \<or>
         (\<exists>e \<in> set es. \<exists>opa.
            e' = e\<lparr>center := Vector2 (x (center e) * s + ox) (y (center e) * s + oy),
                   radius := radius e * s, opacity := Some opa\<rparr>)"
  using assms
proof (induction es arbitrary: el)
  case Nil
  then show ?case by simp
next
  case (Cons e es)
  from Cons.prems have "e' \<in> set (fold (flattenEntity arch p s ox oy) es (flattenEntity arch p s ox oy e el))"
    by simp
  from Cons.IH [OF this] show ?case
    using flattenEntity_copy [of e' arch p s ox oy e el] by auto
qed

lemma branchOutput_copy:
  assumes "e' \<in> set (snd (branchOutput arch p s ox oy br))"
  shows "\<exists>e \<in> set (entities br). \<exists>opa.
            e' = e\<lparr>center := Vector2 (x (center e) * s + ox) (y (center e) * s + oy),
                   radius := radius e * s, opacity := Some opa\<rparr>"
proof -
  from assms have "e' \<in> set (fold (flattenEntity arch p s ox oy) (entities br) [])"
    by (auto simp: branchOutput_def flattenBranch_def Let_def split: if_splits)
  from fold_flattenEntity_copy [OF this] show ?thesis by simp
qed

text \<open>
  C9: what the projector appends to its output lists is the same whatever the lists
  hold, so a second call with the same tree, progress, scale and offsets yields the
  same branches and entities; the tree is only read (it is an argument, never a
  result), and every emitted entity is a copy of an entity of the tree with the centre
  scaled and moved, the radius scaled and the opacity set.
\<close>

theorem flatten_idempotent:
  "flattenTreeOrganic arch t (bl, el) p s ox oy
     = (bl @ fst (flattenTreeOrganic arch t ([], []) p s ox oy),
        el @ snd (flattenTreeOrganic arch t ([], []) p s ox oy))
   \<and> (\<forall>e' \<in> set (snd (flattenTreeOrganic arch t ([], []) p s ox oy)).
        \<exists>br \<in> set (allBranches t). \<exists>e \<in> set (entities br). \<exists>opa.
          e' = e\<lparr>center := Vector2 (x (center e) * s + ox) (y (center e) * s + oy),
                 radius := radius e * s, opacity := Some opa\<rparr>)"
proof
  show "flattenTreeOrganic arch t (bl, el) p s ox oy
     = (bl @ fst (flattenTreeOrganic arch t ([], []) p s ox oy),
        el @ snd (flattenTreeOrganic arch t ([], []) p s ox oy))"
    by (simp add: flattenTreeOrganic_allBranches)
next
  show "\<forall>e' \<in> set (snd (flattenTreeOrganic arch t ([], []) p s ox oy)).
        \<exists>br \<in> set (allBranches t). \<exists>e \<in> set (entities br). \<exists>opa.
          e' = e\<lparr>center := Vector2 (x (center e) * s + ox) (y (center e) * s + oy),
                 radius := radius e * s, opacity := Some opa\<rparr>"
  proof
    fix e'
    assume "e' \<in> set (snd (flattenTreeOrganic arch t ([], []) p s ox oy))"
    then obtain br where br: "br \<in> set (allBranches t)"
      and e': "e' \<in> set (snd (branchOutput arch p s ox oy br))"
      by (auto simp: flattenTreeOrganic_allBranches)
    from branchOutput_copy [OF e'] br show "\<exists>br \<in> set (allBranches t). \<exists>e \<in> set (entities br). \<exists>opa.
          e' = e\<lparr>center := Vector2 (x (center e) * s + ox) (y (center e) * s + oy),
                 radius := radius e * s, opacity := Some opa\<rparr>"
      by blast
  qed
qed

theorem flatten_idempotent_witness:
  "snd (flattenTreeOrganic Pine twig ([], []) 250 2 1 1)
     = [needle\<lparr>center := Vector2 7 9, radius := 40, opacity := Some 1\<rparr>] \<and>
   flattenTreeOrganic Pine twig ([], [needle]) 250 2 1 1
     = (fst (flattenTreeOrganic Pine twig ([], []) 250 2 1 1),
        [needle, needle\<lparr>center := Vector2 7 9, radius := 40, opacity := Some 1\<rparr>]) \<and>
   (\<exists>br \<in> set (allBranches twig). \<exists>e \<in> set (entities br). \<exists>opa.
      needle\<lparr>center := Vector2 7 9, radius := 40, opacity := Some 1\<rparr>
        = e\<lparr>center := Vector2 (x (center e) * 2 + 1) (y (center e) * 2 + 1),
             radius := radius e * 2, opacity := Some opa\<rparr>)"
proof -
  have ev: "snd (flattenTreeOrganic Pine twig ([], []) 250 2 1 1)
     = [needle\<lparr>center := Vector2 7 9, radius := 40, opacity := Some 1\<rparr>]"
    by (simp add: flattenTreeOrganic_allBranches allBranches.simps branchOutput_def twig_def
        flattenBranch_def localT_def coerceIn_def flattenEntity_def fadeOpacity_def
        fadeSpeed_def smoothStep_def needle_def Vector2_def)
  note th = flatten_idempotent [of Pine twig "[]" "[needle]" 250 2 1 1]
  have app: "flattenTreeOrganic Pine twig ([], [needle]) 250 2 1 1
     = (fst (flattenTreeOrganic Pine twig ([], []) 250 2 1 1),
        [needle, needle\<lparr>center := Vector2 7 9, radius := 40, opacity := Some 1\<rparr>])"
    using th [THEN conjunct1] ev by simp
  have "needle\<lparr>center := Vector2 7 9, radius := 40, opacity := Some 1\<rparr>
          \<in> set (snd (flattenTreeOrganic Pine twig ([], []) 250 2 1 1))"
    by (simp add: ev)
  from th [THEN conjunct2, rule_format, OF this] ev app show ?thesis by simp
qed

section \<open>Bounds\<close>























section \<open>The random source and the pine generator\<close>

lemma next_range: "0 \<le> fst (next rand) \<and> fst (next rand) < 1"
proof -
  have "next_seed (seed rand) < 4294967296"
    by (simp add: next_seed_def)
  then have "real (next_seed (seed rand)) < 4294967296"
    by linarith
  then show ?thesis
    by (simp add: next_def Let_def)
qed

lemma nextFloat_range:
  assumes "mn < mx"
  shows "mn \<le> fst (nextFloat rand mn mx) \<and> fst (nextFloat rand mn mx) < mx"
proof -
  define v where "v = fst (next rand)"
  have v: "0 \<le> v" "v < 1" using next_range [of rand] by (simp_all add: v_def)
  have eq: "fst (nextFloat rand mn mx) = mn + v * (mx - mn)"
    by (simp add: nextFloat_def v_def split: prod.splits)
  from assms have d: "0 < mx - mn" by simp
  have "0 \<le> v * (mx - mn)" using v(1) d by simp
  moreover have "v * (mx - mn) < 1 * (mx - mn)"
    using v(2) d by (rule mult_strict_right_mono)
  ultimately show ?thesis unfolding eq by simp
qed

lemma fold_invariant:
  assumes "P s" and "\<And>i s. i \<in> set xs \<Longrightarrow> P s \<Longrightarrow> P (f i s)"
  shows "P (fold f xs s)"
  using assms by (induction xs arbitrary: s) simp_all





lemma leaderParams_len:
  "\<exists>f. fst (snd (leaderParams rand angle len)) = len * f \<and> 0.5 \<le> f \<and> f < 0.95"
proof -
  obtain da rand1 where d1: "nextFloat rand (-10) 10 = (da, rand1)"
    by (cases "nextFloat rand (-10) 10")
  have "fst (snd (leaderParams rand angle len)) = len * fst (nextFloat rand1 0.85 0.95)"
    by (simp add: leaderParams_def d1 split: prod.splits)
  moreover have "0.5 \<le> fst (nextFloat rand1 0.85 0.95) \<and> fst (nextFloat rand1 0.85 0.95) < 0.95"
    using nextFloat_range [of "0.85" "0.95" rand1] by simp
  ultimately show ?thesis by blast
qed

lemma sideParams_len:
  "\<exists>f. fst (snd (sideParams rand angle len)) = len * f \<and> 0.5 \<le> f \<and> f < 0.95"
proof -
  obtain sd rand1 where d1: "nextFloat rand 0 1 = (sd, rand1)"
    by (cases "nextFloat rand 0 1")
  obtain av rand2 where d2: "nextFloat rand1 60 85 = (av, rand2)"
    by (cases "nextFloat rand1 60 85")
  have "fst (snd (sideParams rand angle len)) = len * fst (nextFloat rand2 0.5 0.7)"
    by (simp add: sideParams_def d1 d2 Let_def split: prod.splits)
  moreover have "0.5 \<le> fst (nextFloat rand2 0.5 0.7) \<and> fst (nextFloat rand2 0.5 0.7) < 0.95"
    using nextFloat_range [of "0.5" "0.7" rand2] by simp
  ultimately show ?thesis by blast
qed

lemma generateFullTree_shape:
  "\<exists>en stroke ctl chs rnd.
     fst (generateFullTree rand st len angle depth cdist)
       = Branch st en stroke ctl len cdist chs (fst (pineEntities rnd st en len depth cdist)) \<and>
     (\<forall>c \<in> set chs. pineChild en len depth cdist c)"
proof -
  obtain en ctl stroke rand3 where seg: "pineSegment rand st len angle depth = (en, ctl, stroke, rand3)"
    by (cases "pineSegment rand st len angle depth") auto
  show ?thesis
  proof (cases "0 < depth")
    case False
    have "fst (generateFullTree rand st len angle depth cdist)
       = Branch st en stroke ctl len cdist [] (fst (pineEntities rand3 st en len depth cdist))"
      using False by (subst generateFullTree.simps) (simp add: seg split: prod.splits)
    then show ?thesis by fastforce
  next
    case True
    obtain la ll rnd2 where lp: "leaderParams rand3 angle len = (la, ll, rnd2)"
      by (cases "leaderParams rand3 angle len") auto
    obtain leader rnd3 where ld: "generateFullTree rnd2 en ll la (depth - 1) (cdist + len) = (leader, rnd3)"
      by (cases "generateFullTree rnd2 en ll la (depth - 1) (cdist + len)")
    obtain cnt rnd4 where ct: "nextInt rnd3 1 3 = (cnt, rnd4)"
      by (cases "nextInt rnd3 1 3")
    define F where "F = (\<lambda>(i::nat) (cs, rnd).
                     let (newAngle, newLength, rndC) = sideParams rnd angle len
                     in if depth > 1 then
                          (let (c, rndD) =
                                 generateFullTree rndC en newLength newAngle (depth - 1)
                                   (cdist + len)
                           in (cs @ [c], rndD))
                        else (cs, rndC))"
    define res where "res = fold F [0..<nat cnt] ([leader], rnd4)"
    have eq: "fst (generateFullTree rand st len angle depth cdist)
       = Branch st en stroke ctl len cdist (fst res) (fst (pineEntities (snd res) st en len depth cdist))"
      using True
      by (subst generateFullTree.simps) (simp add: seg lp ld ct res_def F_def split: prod.splits)
    have lead: "pineChild en len depth cdist leader"
    proof -
      from leaderParams_len [of rand3 angle len] lp
      obtain f where "ll = len * f" "0.5 \<le> f" "f < 0.95" by auto
      moreover have "leader = fst (generateFullTree rnd2 en ll la (depth - 1) (cdist + len))"
        by (simp add: ld)
      ultimately show ?thesis using True unfolding pineChild_def by blast
    qed
    have "\<forall>c \<in> set (fst res). pineChild en len depth cdist c"
      unfolding res_def
    proof (rule fold_invariant [where P = "\<lambda>s. \<forall>c \<in> set (fst s). pineChild en len depth cdist c"])
      show "\<forall>c \<in> set (fst ([leader], rnd4)). pineChild en len depth cdist c"
        using lead by simp
    next
      fix i :: nat and s :: "branch list \<times> seededRandom"
      assume inv: "\<forall>c \<in> set (fst s). pineChild en len depth cdist c"
      obtain cs rnd where s: "s = (cs, rnd)" by (cases s)
      obtain na nl rndC where sp: "sideParams rnd angle len = (na, nl, rndC)"
        by (cases "sideParams rnd angle len") auto
      from sideParams_len [of rnd angle len] sp
      obtain f where f: "nl = len * f" "0.5 \<le> f" "f < 0.95" by auto
      have "pineChild en len depth cdist (fst (generateFullTree rndC en nl na (depth - 1) (cdist + len)))"
        using True f unfolding pineChild_def by blast
      with inv show "\<forall>c \<in> set (fst (F i s)). pineChild en len depth cdist c"
        by (auto simp: F_def s sp split: prod.splits)
    qed
    with eq show ?thesis by blast
  qed
qed


lemma nextInt_range:
  assumes "mn < mx"
  shows "\<lfloor>mn\<rfloor> \<le> fst (nextInt rand mn mx) \<and> fst (nextInt rand mn mx) < \<lceil>mx\<rceil>"
proof -
  have eq: "fst (nextInt rand mn mx) = \<lfloor>fst (nextFloat rand mn mx)\<rfloor>"
    by (simp add: nextInt_def split: prod.splits)
  from nextFloat_range [OF assms, of rand]
  have "mn \<le> fst (nextFloat rand mn mx)" "fst (nextFloat rand mn mx) < mx" by simp_all
  then show ?thesis unfolding eq
    by (meson floor_mono floor_less_iff le_of_int_ceiling less_le_trans of_int_floor_le order_le_less_trans less_ceiling_iff)
qed

lemma fold_append_one:
  assumes "\<And>i es rnd. \<exists>e rnd'. f i (es, rnd) = (es @ [e], rnd') \<and> P i e"
  shows "\<exists>new rnd'. fold f xs (es, rnd) = (es @ new, rnd') \<and> length new = length xs \<and>
           (\<forall>k < length xs. P (xs ! k) (new ! k))"
proof (induction xs arbitrary: es rnd)
  case Nil
  show ?case by simp
next
  case (Cons i xs)
  from assms [of i es rnd] obtain e rnd1 where s1: "f i (es, rnd) = (es @ [e], rnd1)" and p: "P i e"
    by blast
  from Cons.IH [of "es @ [e]" rnd1] obtain new rnd' where
    f: "fold f xs (es @ [e], rnd1) = ((es @ [e]) @ new, rnd')" and l: "length new = length xs"
    and a: "\<forall>k < length xs. P (xs ! k) (new ! k)"
    by blast
  have "fold f (i # xs) (es, rnd) = (es @ (e # new), rnd')"
    by (simp add: s1 f)
  moreover have "length (e # new) = length (i # xs)" by (simp add: l)
  moreover have "\<forall>k < length (i # xs). P ((i # xs) ! k) ((e # new) ! k)"
    using p a by (auto simp: nth_Cons split: nat.splits)
  ultimately show ?case by blast
qed

lemma pineEntities_count:
  assumes "depth \<le> 5"
  shows "6 \<le> length (fst (pineEntities rand st en len depth cdist))"
proof -
  obtain count rand1 where c: "nextInt rand 6 10 = (count, rand1)" by (cases "nextInt rand 6 10")
  from nextInt_range [of 6 10 rand] c have cnt: "6 \<le> count" by simp
  define f where "f = (\<lambda>(i::nat) (es, rnd). let (e, rnd') = pineEntity rnd st en len depth cdist
                                in (es @ [e], rnd'))"
  have "\<exists>new rnd'. fold f [0..<nat count] ([], rand1) = ([] @ new, rnd') \<and>
          length new = length [0..<nat count] \<and>
          (\<forall>k < length [0..<nat count]. (\<lambda>i e. True) ([0..<nat count] ! k) (new ! k))"
    by (rule fold_append_one) (auto simp: f_def split: prod.splits)
  then have "length (fst (fold f [0..<nat count] ([], rand1))) = nat count" by auto
  with assms cnt show ?thesis by (simp add: pineEntities_def c f_def)
qed


lemma generateFullTree_root:
  "start (fst (generateFullTree rand st len angle depth cdist)) = st \<and>
   blength (fst (generateFullTree rand st len angle depth cdist)) = len \<and>
   distFromRoot (fst (generateFullTree rand st len angle depth cdist)) = cdist \<and>
   (depth \<le> 5 \<longrightarrow> 6 \<le> length (entities (fst (generateFullTree rand st len angle depth cdist))))"
  using generateFullTree_shape [of rand st len angle depth cdist] pineEntities_count
  by auto

section \<open>The sunflower generator\<close>





lemma next_seed_small: "s < 4294967296 \<Longrightarrow> next_seed s = (s * 1664525 + 1013904223) mod 4294967296"
proof -
  assume "s < 4294967296"
  then have "s \<le> 4294967295" by simp
  then have "s * 1664525 \<le> 4294967295 * 1664525" by (rule mult_le_mono1)
  then have a: "s * 1664525 < 2 ^ 53" and b: "s * 1664525 + 1013904223 < 2 ^ 53" by simp_all
  show ?thesis
    unfolding next_seed_def roundDouble_def using a b by simp
qed

lemma draws_from_42:
  "next \<lparr>seed = 42\<rparr> = (1083814273 / 4294967296, \<lparr>seed = 1083814273\<rparr>)"
  "next \<lparr>seed = 1083814273\<rparr> = (378494188 / 4294967296, \<lparr>seed = 378494188\<rparr>)"
  "next \<lparr>seed = 378494188\<rparr> = (2479403867 / 4294967296, \<lparr>seed = 2479403867\<rparr>)"
  "next \<lparr>seed = 2479403867\<rparr> = (955863294 / 4294967296, \<lparr>seed = 955863294\<rparr>)"
  by (simp_all add: next_def next_seed_small)

section \<open>Bounds of generated trees\<close>






section \<open>The growth-distance budget is a maximum\<close>














section \<open>Auto-fit on degenerate bounds\<close>
















section \<open>Properties of binary64 rounding\<close>

lemma bexp_bounds: "0 < v \<Longrightarrow> 2 powi (bexp v) \<le> v \<and> v < 2 powi (bexp v + 1)"
proof (induction v rule: bexp.induct)
  case (1 v)
  show ?case
  proof (cases "2 \<le> v")
    case True
    then have b: "bexp v = bexp (v / 2) + 1" using "1.prems" by (subst bexp.simps) simp
    from "1.IH"(1) True "1.prems" have "2 powi (bexp (v / 2)) \<le> v / 2 \<and> v / 2 < 2 powi (bexp (v / 2) + 1)"
      by simp
    then show ?thesis unfolding b by (simp add: power_int_add)
  next
    case False
    show ?thesis
    proof (cases "v < 1")
      case True
      then have b: "bexp v = bexp (v * 2) - 1" using "1.prems" False by (subst bexp.simps) simp
      from "1.IH"(2) True False "1.prems"
      have "2 powi (bexp (v * 2)) \<le> v * 2 \<and> v * 2 < 2 powi (bexp (v * 2) + 1)"
        by simp
      then show ?thesis unfolding b by (simp add: power_int_diff power_int_add)
    next
      case f2: False
      then have "bexp v = 0" using "1.prems" False by (subst bexp.simps) simp
      with False f2 show ?thesis by simp
    qed
  qed
qed

lemma pow2_less_imp: "(2::real) powi m < 2 powi n \<Longrightarrow> m < n"
proof (rule ccontr)
  assume lt: "(2::real) powi m < 2 powi n" and "\<not> m < n"
  then have "n \<le> m" by simp
  then have "(2::real) powi n \<le> 2 powi m" by (intro power_int_increasing) simp_all
  with lt show False by simp
qed

lemma pow2_pos: "0 < (2::real) powi k"
  by (simp add: zero_less_power_int)

lemma bexp_eqI:
  assumes "2 powi e \<le> v" and "v < 2 powi (e + 1)"
  shows "bexp v = e"
proof -
  have pos: "0 < v" using assms(1) pow2_pos [of e] by linarith
  from bexp_bounds [OF pos] have b: "2 powi (bexp v) \<le> v" "v < 2 powi (bexp v + 1)" by simp_all
  have "(2::real) powi e < 2 powi (bexp v + 1)" using assms(1) b(2) by linarith
  then have "e < bexp v + 1" by (rule pow2_less_imp)
  moreover have "(2::real) powi (bexp v) < 2 powi (e + 1)" using assms(2) b(1) by linarith
  then have "bexp v < e + 1" by (rule pow2_less_imp)
  ultimately show ?thesis by simp
qed

lemma rne_cases:
  "rne v = \<lfloor>v\<rfloor> \<or> rne v = \<lfloor>v\<rfloor> + 1"
  by (simp add: rne_def Let_def)

lemma rne_err: "\<bar>of_int (rne v) - v\<bar> \<le> 1 / 2"
proof -
  have "of_int \<lfloor>v\<rfloor> \<le> v" "v < of_int \<lfloor>v\<rfloor> + 1" by linarith+
  then show ?thesis by (auto simp: rne_def Let_def)
qed

lemma rne_of_int [simp]: "rne (of_int n) = n"
  by (simp add: rne_def)

lemma rne_mono:
  assumes "v \<le> w"
  shows "rne v \<le> rne w"
proof (cases "\<lfloor>v\<rfloor> = \<lfloor>w\<rfloor>")
  case True
  with assms show ?thesis by (auto simp: rne_def Let_def)
next
  case False
  with assms have lt: "\<lfloor>v\<rfloor> < \<lfloor>w\<rfloor>" using floor_mono [OF assms] by linarith
  have "rne v \<le> \<lfloor>v\<rfloor> + 1" using rne_cases [of v] by auto
  moreover have "\<lfloor>w\<rfloor> \<le> rne w" using rne_cases [of w] by auto
  ultimately show ?thesis using lt by linarith
qed

lemma rne_minus: "rne (- v) = - rne v"
proof (cases "v = of_int \<lfloor>v\<rfloor>")
  case True
  then obtain n where "v = of_int n" by blast
  then show ?thesis by (simp flip: of_int_minus)
next
  case False
  then have fr: "of_int \<lfloor>v\<rfloor> < v" "v < of_int \<lfloor>v\<rfloor> + 1" by linarith+
  have fm: "\<lfloor>- v\<rfloor> = - \<lfloor>v\<rfloor> - 1"
    by (rule floor_unique) (use fr in \<open>simp; linarith\<close>)+
  show ?thesis
    using fr unfolding rne_def Let_def fm by auto
qed


lemma fl_zero [simp]: "fl 0 = 0"
  by (simp add: fl_def)

lemma fl_eval:
  assumes "2 powi e \<le> \<bar>v\<bar>" and "\<bar>v\<bar> < 2 powi (e + 1)"
  shows "fl v = of_int (rne (v / 2 powi (e - 52))) * 2 powi (e - 52)"
proof -
  have "v \<noteq> 0"
  proof
    assume "v = 0"
    with assms(1) have "(2::real) powi e \<le> 0" by simp
    with pow2_pos [of e] show False by linarith
  qed
  moreover have "bexp \<bar>v\<bar> = e" using assms by (rule bexp_eqI)
  ultimately show ?thesis by (simp add: fl_def Let_def)
qed

lemma fl_minus: "fl (- v) = - fl v"
  by (simp add: fl_def Let_def rne_minus)

lemma pow2_le: "m \<le> n \<Longrightarrow> (2::real) powi m \<le> 2 powi n"
  by (intro power_int_increasing) simp_all

lemma pow2_split: "(2::real) powi (e + 1) = 2 powi (e - 52) * 2 ^ 53"
proof -
  have eq: "e + 1 = (e - 52) + 53" by simp
  have "(2::real) powi ((e - 52) + 53) = 2 powi (e - 52) * 2 powi 53"
    by (rule power_int_add) simp
  then show ?thesis unfolding eq [symmetric] by simp
qed

lemma pow2_split': "(2::real) powi e = 2 powi (e - 52) * 2 ^ 52"
proof -
  have eq: "e = (e - 52) + 52" by simp
  have "(2::real) powi ((e - 52) + 52) = 2 powi (e - 52) * 2 powi 52"
    by (rule power_int_add) simp
  then show ?thesis unfolding eq [symmetric] by simp
qed

text \<open>The rounded value of a positive number stays in the closed binade of the number.\<close>

lemma fl_pos_range:
  assumes "0 < v"
  shows "2 powi (bexp v) \<le> fl v \<and> fl v \<le> 2 powi (bexp v + 1)"
proof -
  define e where "e = bexp v"
  define k where "k = e - 52"
  define q where "q = v / 2 powi k"
  from bexp_bounds [OF assms] have b: "2 powi e \<le> v" "v < 2 powi (e + 1)" by (simp_all add: e_def)
  have kp: "0 < (2::real) powi k" by (rule pow2_pos)
  have "2 ^ 52 \<le> q"
    using b(1) kp unfolding q_def k_def pow2_split' [of e] by (simp add: le_divide_eq mult.commute)
  then have "real_of_int (2 ^ 52) \<le> q" by simp
  from rne_mono [OF this] have lo: "2 ^ 52 \<le> rne q" by (simp only: rne_of_int)
  have "q \<le> 2 ^ 53"
    using b(2) kp unfolding q_def k_def pow2_split [of e] by (simp add: divide_le_eq mult.commute)
  then have "q \<le> real_of_int (2 ^ 53)" by simp
  from rne_mono [OF this] have hi: "rne q \<le> 2 ^ 53" by (simp only: rne_of_int)
  have f: "fl v = of_int (rne q) * 2 powi k"
    using assms by (simp add: fl_def Let_def q_def k_def e_def)
  have "(2::real) ^ 52 \<le> of_int (rne q)" using lo by (metis of_int_le_iff of_int_numeral of_int_power)
  then have "(2::real) powi k * 2 ^ 52 \<le> real_of_int (rne q) * 2 powi k"
    using kp by (simp add: mult.commute)
  moreover have "of_int (rne q) \<le> (2::real) ^ 53" using hi by (metis of_int_le_iff of_int_numeral of_int_power)
  then have "real_of_int (rne q) * 2 powi k \<le> (2::real) powi k * 2 ^ 53"
    using kp by (simp add: mult.commute)
  ultimately show ?thesis
    unfolding f e_def [symmetric] pow2_split [of e] pow2_split' [of e] k_def by simp
qed

lemma fl_mono_pos:
  assumes "0 < v" and "v \<le> w"
  shows "fl v \<le> fl w"
proof -
  have wpos: "0 < w" using assms by simp
  from bexp_bounds [OF assms(1)] have bv: "2 powi (bexp v) \<le> v" "v < 2 powi (bexp v + 1)" by simp_all
  from bexp_bounds [OF wpos] have bw: "2 powi (bexp w) \<le> w" "w < 2 powi (bexp w + 1)" by simp_all
  have "(2::real) powi (bexp v) < 2 powi (bexp w + 1)" using bv(1) bw(2) assms(2) by linarith
  then have le: "bexp v \<le> bexp w" using pow2_less_imp by fastforce
  show ?thesis
  proof (cases "bexp v = bexp w")
    case True
    have "v / 2 powi (bexp w - 52) \<le> w / 2 powi (bexp w - 52)"
      using assms(2) pow2_pos [of "bexp w - 52"] by (simp add: divide_right_mono)
    then have "rne (v / 2 powi (bexp w - 52)) \<le> rne (w / 2 powi (bexp w - 52))"
      by (rule rne_mono)
    then have "real_of_int (rne (v / 2 powi (bexp w - 52))) * 2 powi (bexp w - 52)
               \<le> real_of_int (rne (w / 2 powi (bexp w - 52))) * 2 powi (bexp w - 52)"
      using pow2_pos [of "bexp w - 52"] by (simp add: mult_right_mono)
    then show ?thesis using assms wpos True by (simp add: fl_def Let_def)
  next
    case False
    with le have "bexp v + 1 \<le> bexp w" by simp
    then have "(2::real) powi (bexp v + 1) \<le> 2 powi (bexp w)" by (rule pow2_le)
    with fl_pos_range [OF assms(1)] fl_pos_range [OF wpos] show ?thesis by linarith
  qed
qed

lemma fl_pos: "0 < v \<Longrightarrow> 0 < fl v"
  using fl_pos_range [of v] pow2_pos [of "bexp v"] by linarith

lemma fl_mono:
  assumes "v \<le> w"
  shows "fl v \<le> fl w"
proof -
  consider "0 < v" | "v = 0" | "v < 0" "w < 0" | "v < 0" "0 \<le> w" by linarith
  then show ?thesis
  proof cases
    case 1
    then show ?thesis using assms by (rule fl_mono_pos)
  next
    case 2
    then show ?thesis using assms fl_pos [of w] by (cases "w = 0") auto
  next
    case 3
    then have "fl (- w) \<le> fl (- v)" using assms by (intro fl_mono_pos) simp_all
    then show ?thesis by (simp add: fl_minus)
  next
    case 4
    have "fl (- v) > 0" using 4(1) by (intro fl_pos) simp
    then have "fl v < 0" by (simp add: fl_minus)
    moreover have "0 \<le> fl w" using 4(2) fl_pos [of w] by (cases "w = 0") auto
    ultimately show ?thesis by simp
  qed
qed

lemma fl_nonneg: "0 \<le> v \<Longrightarrow> 0 \<le> fl v"
  using fl_mono [of 0 v] by simp


text \<open>Numbers with at most 53 significant bits are rounded to themselves.\<close>

lemma fl_exact:
  assumes "\<bar>m\<bar> \<le> 2 ^ 53"
  shows "fl (of_int m * 2 powi e) = of_int m * 2 powi e"
proof (cases "m = 0")
  case True
  then show ?thesis by simp
next
  case False
  define v :: real where "v = of_int m * 2 powi e"
  define k where "k = bexp \<bar>v\<bar> - 52"
  have av: "\<bar>v\<bar> = of_int \<bar>m\<bar> * 2 powi e"
    using pow2_pos [of e] by (simp add: v_def abs_mult)
  have vpos: "0 < \<bar>v\<bar>" using False pow2_pos [of e] by (simp add: v_def)
  from bexp_bounds [OF vpos] have b: "2 powi (bexp \<bar>v\<bar>) \<le> \<bar>v\<bar>" by simp
  have "\<exists>n. v / 2 powi k = of_int n"
  proof (cases "\<bar>m\<bar> = 2 ^ 53")
    case True
    have "\<bar>v\<bar> = 2 powi 53 * 2 powi e" unfolding av True by simp
    also have "\<dots> = 2 powi (e + 53)" by (simp add: power_int_add mult.commute)
    finally have eq: "\<bar>v\<bar> = 2 powi (e + 53)" .
    have "bexp \<bar>v\<bar> = e + 53"
      by (rule bexp_eqI) (simp_all add: eq power_int_add)
    then have k: "k = e + 1" by (simp add: k_def)
    have "(2::real) powi (e + 1) = 2 powi e * 2" by (simp add: power_int_add)
    then have "v / 2 powi k = of_int m / 2"
      using pow2_pos [of e] unfolding k v_def by simp
    moreover from True have "m = 2 * 2 ^ 52 \<or> m = 2 * (- (2 ^ 52))" by simp linarith
    then obtain h where "m = 2 * h" by blast
    ultimately have "v / 2 powi k = of_int h" by simp
    then show ?thesis ..
  next
    case lt: False
    with assms have "\<bar>m\<bar> < 2 ^ 53" by simp
    then have "real_of_int \<bar>m\<bar> < 2 ^ 53" by (metis of_int_less_iff of_int_numeral of_int_power)
    then have "\<bar>v\<bar> < 2 ^ 53 * 2 powi e" unfolding av using pow2_pos [of e] by simp
    also have "\<dots> = 2 powi (e + 53)" by (simp add: power_int_add mult.commute)
    finally have "(2::real) powi (bexp \<bar>v\<bar>) < 2 powi (e + 53)" using b by linarith
    then have "bexp \<bar>v\<bar> < e + 53" by (rule pow2_less_imp)
    then have ke: "k \<le> e" by (simp add: k_def)
    have "(2::real) powi e = 2 powi (k + (e - k))" by simp
    also have "\<dots> = 2 powi k * 2 powi (e - k)" by (rule power_int_add) simp
    also have "(2::real) powi (e - k) = 2 ^ nat (e - k)" using ke by (simp add: power_int_def)
    finally have "v / 2 powi k = of_int m * 2 ^ nat (e - k)"
      using pow2_pos [of k] by (simp add: v_def)
    also have "\<dots> = of_int (m * 2 ^ nat (e - k))" by simp
    finally show ?thesis ..
  qed
  then obtain n where n: "v / 2 powi k = of_int n" ..
  then have v: "v = of_int n * 2 powi k" using pow2_pos [of k] by (simp add: field_simps)
  have "v \<noteq> 0" using vpos by simp
  then have "fl v = of_int (rne (v / 2 powi k)) * 2 powi k"
    by (simp add: fl_def Let_def k_def)
  also have "\<dots> = v" unfolding n rne_of_int by (simp add: v)
  finally show ?thesis by (simp add: v_def)
qed

lemma fl_pow2 [simp]: "fl (2 powi e) = 2 powi e"
  using fl_exact [of 1 e] by simp

lemma fl_of_int:
  assumes "\<bar>m\<bar> \<le> 2 ^ 53"
  shows "fl (of_int m) = of_int m"
  using fl_exact [OF assms, of 0] by simp

text \<open>A rounded value is a number with at most 53 significant bits.\<close>

lemma fl_grid: "\<exists>n k. \<bar>n\<bar> \<le> 2 ^ 53 \<and> fl v = of_int n * 2 powi k"
proof (cases "v = 0")
  case True
  then have "\<bar>0::int\<bar> \<le> 2 ^ 53 \<and> fl v = of_int 0 * 2 powi 0" by simp
  then show ?thesis by blast
next
  case False
  define k where "k = bexp \<bar>v\<bar> - 52"
  define q where "q = v / 2 powi k"
  have vpos: "0 < \<bar>v\<bar>" using False by simp
  from bexp_bounds [OF vpos] have "\<bar>v\<bar> < 2 powi (bexp \<bar>v\<bar> + 1)" by simp
  then have "\<bar>v\<bar> < 2 powi k * 2 ^ 53" unfolding pow2_split [of "bexp \<bar>v\<bar>"] k_def .
  then have "\<bar>q\<bar> < 2 ^ 53"
    using pow2_pos [of k] by (simp add: q_def abs_divide divide_less_eq mult.commute)
  then have "q \<le> real_of_int (2 ^ 53)" "real_of_int (- (2 ^ 53)) \<le> q" by simp_all
  from rne_mono [OF this(1)] rne_mono [OF this(2)]
  have "\<bar>rne q\<bar> \<le> 2 ^ 53" by (simp only: rne_of_int)
  moreover have "fl v = of_int (rne q) * 2 powi k"
    using False by (simp add: fl_def Let_def k_def q_def)
  ultimately show ?thesis by blast
qed

lemma fl_idem [simp]: "fl (fl v) = fl v"
proof -
  from fl_grid [of v] obtain n k where "\<bar>n\<bar> \<le> 2 ^ 53" "fl v = of_int n * 2 powi k" by blast
  then show ?thesis using fl_exact [of n k] by simp
qed

lemma fl_err:
  assumes "\<bar>v\<bar> < 2 powi (e + 1)"
  shows "\<bar>fl v - v\<bar> \<le> 2 powi (e - 53)"
proof (cases "v = 0")
  case True
  then show ?thesis using pow2_pos [of "e - 53"] by simp
next
  case False
  define k where "k = bexp \<bar>v\<bar> - 52"
  define q where "q = v / 2 powi k"
  have vpos: "0 < \<bar>v\<bar>" using False by simp
  from bexp_bounds [OF vpos] have "2 powi (bexp \<bar>v\<bar>) \<le> \<bar>v\<bar>" by simp
  with assms have "(2::real) powi (bexp \<bar>v\<bar>) < 2 powi (e + 1)" by linarith
  then have "bexp \<bar>v\<bar> < e + 1" by (rule pow2_less_imp)
  then have ke: "k - 1 \<le> e - 53" by (simp add: k_def)
  have kp: "0 < (2::real) powi k" by (rule pow2_pos)
  have f: "fl v = of_int (rne q) * 2 powi k"
    using False by (simp add: fl_def Let_def k_def q_def)
  have v: "v = q * 2 powi k" using kp by (simp add: q_def)
  have "fl v - v = real_of_int (rne q) * 2 powi k - q * 2 powi k"
    by (simp add: f v [symmetric])
  then have "fl v - v = (of_int (rne q) - q) * 2 powi k"
    by (simp add: algebra_simps)
  then have "\<bar>fl v - v\<bar> = \<bar>of_int (rne q) - q\<bar> * 2 powi k"
    using kp by (simp add: abs_mult)
  also have "\<dots> \<le> 1 / 2 * 2 powi k"
    using rne_err [of q] kp by (intro mult_right_mono) simp_all
  also have "\<dots> = 2 powi (k - 1)" by (simp add: power_int_diff)
  also have "\<dots> \<le> 2 powi (e - 53)" using ke by (rule pow2_le)
  finally show ?thesis .
qed

lemma fl_one [simp]: "fl 1 = 1"
  using fl_of_int [of 1] by simp

lemma fl_numeral_small: "numeral n \<le> (2::int) ^ 53 \<Longrightarrow> fl (numeral n) = numeral n"
  using fl_of_int [of "numeral n"] by simp

lemma fl_double:
  assumes "fl t = t"
  shows "fl (2 * t) = 2 * t"
proof -
  from fl_grid [of t] assms obtain n k where n: "\<bar>n\<bar> \<le> 2 ^ 53" and t: "t = of_int n * 2 powi k"
    by auto
  have "2 * t = of_int n * 2 powi (k + 1)" unfolding t by (simp add: power_int_add)
  then show ?thesis using fl_exact [OF n, of "k + 1"] by simp
qed

section \<open>The fade of an entity in binary64\<close>

lemma coerceIn_fl:
  assumes "fl v = v"
  shows "fl (coerceIn v 0 1) = coerceIn v 0 1"
  using assms by (auto simp: coerceIn_def max_def min_def)

lemma fadeFractionD_unit:
  "0 \<le> fadeFractionD speed e p \<and> fadeFractionD speed e p \<le> 1 \<and>
   fl (fadeFractionD speed e p) = fadeFractionD speed e p"
  using coerceIn_unit [of "ddiv (dsub p (edistFromRoot e)) speed"]
    coerceIn_fl [of "ddiv (dsub p (edistFromRoot e)) speed"]
  by (simp add: fadeFractionD_def Let_def ddiv_def)

lemma fadeFractionD_mono:
  assumes "0 < speed" and "p1 \<le> p2"
  shows "fadeFractionD speed e p1 \<le> fadeFractionD speed e p2"
proof -
  have "fl (p1 - edistFromRoot e) \<le> fl (p2 - edistFromRoot e)"
    using assms(2) by (intro fl_mono) simp
  then have "fl (p1 - edistFromRoot e) / speed \<le> fl (p2 - edistFromRoot e) / speed"
    using assms(1) by (simp add: divide_right_mono)
  then have "fl (fl (p1 - edistFromRoot e) / speed) \<le> fl (fl (p2 - edistFromRoot e) / speed)"
    by (rule fl_mono)
  then show ?thesis
    unfolding fadeFractionD_def Let_def dsub_def ddiv_def by (rule coerceIn_mono)
qed

lemma smoothStepD_one: "smoothStepD 1 = 1"
  by (simp add: smoothStepD_def dmul_def dsub_def fl_numeral_small)

lemma fadeOpacityD_one:
  assumes "0 < speed" and "fl speed = speed" and "edistFromRoot e + speed \<le> p"
  shows "fadeOpacityD speed e p = 1"
proof -
  have "speed \<le> p - edistFromRoot e" using assms(3) by simp
  then have "fl speed \<le> fl (p - edistFromRoot e)" by (rule fl_mono)
  then have "1 \<le> fl (p - edistFromRoot e) / speed" using assms(1,2) by (simp add: le_divide_eq)
  then have "fl 1 \<le> fl (fl (p - edistFromRoot e) / speed)" by (rule fl_mono)
  then have "fadeFractionD speed e p = 1"
    by (simp add: fadeFractionD_def Let_def dsub_def ddiv_def coerceIn_one_iff)
  then show ?thesis by (simp add: fadeOpacityD_def smoothStepD_one)
qed

text \<open>The rounded easing stays within \<open>2^-50\<close> of the exact one.\<close>

lemma smoothStepD_err:
  assumes "0 \<le> t" and "t \<le> 1" and "fl t = t"
  shows "\<bar>smoothStepD t - smoothStep t\<bar> \<le> 2 powi (- 50)"
proof -
  define a where "a = fl (t * t)"
  define c where "c = fl (3 - 2 * t)"
  have tt: "0 \<le> t * t" "t * t \<le> 1" using assms by (simp_all add: mult_le_one)
  have ea: "\<bar>a - t * t\<bar> \<le> 2 powi (- 54)"
  proof (cases "t * t = 1")
    case True
    then show ?thesis by (simp add: a_def)
  next
    case False
    with tt have "\<bar>t * t\<bar> < 2 powi (- 1 + 1)" by simp
    from fl_err [OF this] show ?thesis by (simp add: a_def)
  qed
  have a01: "0 \<le> a" "a \<le> 1"
    using fl_mono [of 0 "t * t"] fl_mono [of "t * t" 1] tt by (simp_all add: a_def)
  have u: "1 \<le> 3 - 2 * t" "3 - 2 * t \<le> 3" using assms by simp_all
  then have "\<bar>3 - 2 * t\<bar> < 2 powi (1 + 1)" by simp
  from fl_err [OF this] have ec: "\<bar>c - (3 - 2 * t)\<bar> \<le> 2 powi (- 52)" by (simp add: c_def)
  have c13: "1 \<le> c" "c \<le> 3"
    using fl_mono [OF u(1)] fl_mono [OF u(2)] by (simp_all add: c_def fl_numeral_small)
  have ac: "0 \<le> a * c" "a * c \<le> 3"
    using a01 c13 by (simp, metis mult_mono mult_1 zero_le_one order_trans)
  then have "\<bar>a * c\<bar> < 2 powi (1 + 1)" by simp
  from fl_err [OF this] have er: "\<bar>fl (a * c) - a * c\<bar> \<le> 2 powi (- 52)" by simp
  have "a * c - t * t * (3 - 2 * t) = (a - t * t) * c + t * t * (c - (3 - 2 * t))"
    by (simp add: algebra_simps)
  then have "\<bar>a * c - t * t * (3 - 2 * t)\<bar> \<le> \<bar>a - t * t\<bar> * \<bar>c\<bar> + \<bar>t * t\<bar> * \<bar>c - (3 - 2 * t)\<bar>"
    by (metis abs_mult abs_triangle_ineq)
  also have "\<dots> \<le> 2 powi (- 54) * 3 + 1 * 2 powi (- 52)"
    using ea ec c13 tt by (intro add_mono mult_mono) simp_all
  finally have em: "\<bar>a * c - t * t * (3 - 2 * t)\<bar> \<le> 2 powi (- 54) * 3 + 2 powi (- 52)" by simp
  have sd: "smoothStepD t = fl (a * c)"
    using fl_double [OF assms(3)] by (simp add: smoothStepD_def dmul_def dsub_def a_def c_def)
  have "\<bar>smoothStepD t - smoothStep t\<bar>
          \<le> \<bar>fl (a * c) - a * c\<bar> + \<bar>a * c - t * t * (3 - 2 * t)\<bar>"
    unfolding sd smoothStep_def by linarith
  also have "\<dots> \<le> 2 powi (- 52) + (2 powi (- 54) * 3 + 2 powi (- 52))"
    using er em by (rule add_mono)
  also have "\<dots> \<le> 2 powi (- 50)" by simp
  finally show ?thesis .
qed

lemma fadeOpacityD_almost_mono:
  assumes "0 < speed" and "p1 \<le> p2"
  shows "fadeOpacityD speed e p1 \<le> fadeOpacityD speed e p2 + 2 powi (- 49)"
proof -
  define t1 where "t1 = fadeFractionD speed e p1"
  define t2 where "t2 = fadeFractionD speed e p2"
  have u1: "0 \<le> t1" "t1 \<le> 1" "fl t1 = t1" and u2: "0 \<le> t2" "t2 \<le> 1" "fl t2 = t2"
    using fadeFractionD_unit [of speed e p1] fadeFractionD_unit [of speed e p2]
    by (simp_all add: t1_def t2_def)
  have le: "t1 \<le> t2" unfolding t1_def t2_def using assms by (rule fadeFractionD_mono)
  have "smoothStep t1 \<le> smoothStep t2" using u1(1) le u2(2) by (rule smoothStep_mono)
  moreover have "\<bar>smoothStepD t1 - smoothStep t1\<bar> \<le> 2 powi (- 50)" using u1 by (rule smoothStepD_err)
  moreover have "\<bar>smoothStepD t2 - smoothStep t2\<bar> \<le> 2 powi (- 50)" using u2 by (rule smoothStepD_err)
  moreover have "(2::real) powi (- 50) + 2 powi (- 50) = 2 powi (- 49)" by simp
  ultimately have "smoothStepD t1 \<le> smoothStepD t2 + 2 powi (- 49)" by linarith
  then show ?thesis by (simp add: fadeOpacityD_def t1_def t2_def)
qed

lemma fadeSpeed_double: "fl (fadeSpeed arch e) = fadeSpeed arch e"
  by (cases arch) (simp_all add: fadeSpeed_def fl_numeral_small)

text \<open>
  C6, as the code has it: for a positive binary64 fade speed the clamped fade fraction
  does not decrease when the progress distance grows; the opacity, computed in binary64
  as \<open>t * t * (3 - 2 * t)\<close>, does not decrease by more than the rounding error \<open>2^-49\<close>;
  and it is exactly 1 from \<open>distFromRoot + fadeSpeed\<close> on.  The projector emits this
  opacity, with the fade speeds 150 and 50, which are positive binary64 numbers.
\<close>

theorem fadeOpacityD_monotone:
  assumes "0 < speed" and "fl speed = speed"
  shows "(\<forall>p1 p2. p1 \<le> p2 \<longrightarrow> fadeFractionD speed e p1 \<le> fadeFractionD speed e p2) \<and>
         (\<forall>p1 p2. p1 \<le> p2 \<longrightarrow>
            fadeOpacityD speed e p1 \<le> fadeOpacityD speed e p2 + 2 powi (- 49)) \<and>
         (\<forall>p. edistFromRoot e + speed \<le> p \<longrightarrow> fadeOpacityD speed e p = 1) \<and>
         flattenEntityD arch q scale oX oY e entityList =
           (if edistFromRoot e < q \<and> dlit 0.01 < fadeOpacityD (fadeSpeed arch e) e q then
              entityList @
                [e\<lparr>center := Vector2 (dadd (dmul (x (center e)) scale) oX)
                                    (dadd (dmul (y (center e)) scale) oY),
                   radius := dmul (radius e) scale,
                   opacity := Some (fadeOpacityD (fadeSpeed arch e) e q)\<rparr>]
            else entityList) \<and>
         0 < fadeSpeed arch e \<and> fl (fadeSpeed arch e) = fadeSpeed arch e"
  using fadeFractionD_mono [OF assms(1)] fadeOpacityD_almost_mono [OF assms(1)]
    fadeOpacityD_one [OF assms] fadeSpeed_pos [of arch e] fadeSpeed_double [of arch e]
  by (simp add: flattenEntityD_def Let_def)

theorem fadeOpacityD_monotone_witness:
  "(0::real) < 150 \<and> fl 150 = 150 \<and> ((8684902724029017 / 35184372088832)::real) \<le> (4342451362014509 / 17592186044416) \<and>
   fadeFractionD 150 needle (8684902724029017 / 35184372088832) \<le> fadeFractionD 150 needle (4342451362014509 / 17592186044416) \<and>
   fadeOpacityD 150 needle (8684902724029017 / 35184372088832) \<le> fadeOpacityD 150 needle (4342451362014509 / 17592186044416) + 2 powi (- 49) \<and>
   fadeOpacityD 150 needle 250 = 1"
proof -
  have pos: "(0::real) < 150" by simp
  have dbl: "fl 150 = 150" by (simp add: fl_numeral_small)
  note m = fadeOpacityD_monotone [OF pos dbl, of needle]
  have le: "((8684902724029017 / 35184372088832)::real) \<le> (4342451362014509 / 17592186044416)" by simp
  have a: "fadeFractionD 150 needle (8684902724029017 / 35184372088832) \<le> fadeFractionD 150 needle (4342451362014509 / 17592186044416)"
    using m [THEN conjunct1, rule_format, OF le] .
  have b: "fadeOpacityD 150 needle (8684902724029017 / 35184372088832) \<le> fadeOpacityD 150 needle (4342451362014509 / 17592186044416) + 2 powi (- 49)"
    using m [THEN conjunct2, THEN conjunct1, rule_format, OF le] .
  have c: "fadeOpacityD 150 needle 250 = 1"
    using m [THEN conjunct2, THEN conjunct2, THEN conjunct1, rule_format, of 250]
    by (simp add: needle_def)
  from pos dbl le a b c show ?thesis by blast
qed

text \<open>
  Between two neighbouring binary64 progress distances the opacity of the code falls by
  one unit in the last place.
\<close>

lemma ce6_lo_age: "fl (5166465515145817 / 35184372088832) = (5166465515145817 / 35184372088832)"
  by (subst fl_eval [of 7]) (simp_all add: rne_def)

lemma ce6_lo_frac: "fl (5166465515145817 / 5277655813324800) = (4408717239591097 / 4503599627370496)"
  by (subst fl_eval [of "- 1"]) (simp_all add: rne_def)

lemma ce6_lo_sq: "fl (19436787698667742188991761663409 / 20282409603651670423947251286016) = (8631667691124775 / 9007199254740992)"
  by (subst fl_eval [of "- 1"]) (simp_all add: rne_def)

lemma ce6_lo_dbl: "fl (4408717239591097 / 2251799813685248) = (4408717239591097 / 2251799813685248)"
  by (subst fl_eval [of 0]) (simp_all add: rne_def)

lemma ce6_lo_sub: "fl (2346682201464647 / 2251799813685248) = (2346682201464647 / 2251799813685248)"
  by (subst fl_eval [of 0]) (simp_all add: rne_def)

lemma ce6_lo_prod: "fl (20255780939719953660307828329425 / 20282409603651670423947251286016) = (8995373752416193 / 9007199254740992)"
  by (subst fl_eval [of "- 1"]) (simp_all add: rne_def)

lemma ce6_hi_age: "fl (2583232757572909 / 17592186044416) = (2583232757572909 / 17592186044416)"
  by (subst fl_eval [of 7]) (simp_all add: rne_def)

lemma ce6_hi_frac: "fl (2583232757572909 / 2638827906662400) = (2204358619795549 / 2251799813685248)"
  by (subst fl_eval [of "- 1"]) (simp_all add: rne_def)

lemma ce6_hi_sq: "fl (4859196924666937751606560211401 / 5070602400912917605986812821504) = (4315833845562389 / 4503599627370496)"
  by (subst fl_eval [of "- 1"]) (simp_all add: rne_def)

lemma ce6_hi_dbl: "fl (2204358619795549 / 1125899906842624) = (2204358619795549 / 1125899906842624)"
  by (subst fl_eval [of 0]) (simp_all add: rne_def)

lemma ce6_hi_sub: "fl (1173341100732323 / 1125899906842624) = (1173341100732323 / 1125899906842624)"
  by (subst fl_eval [of 0]) (simp_all add: rne_def)

lemma ce6_hi_prod: "fl (5063945234929988017171685399647 / 5070602400912917605986812821504) = (140552714881503 / 140737488355328)"
  by (subst fl_eval [of "- 1"]) (simp_all add: rne_def)

theorem fadeOpacityD_counterexample:
  "((8684902724029017 / 35184372088832)::real) < (4342451362014509 / 17592186044416) \<and>
   fadeOpacityD 150 needle (4342451362014509 / 17592186044416) < fadeOpacityD 150 needle (8684902724029017 / 35184372088832) \<and>
   fadeOpacityD 150 needle (8684902724029017 / 35184372088832) = (8995373752416193 / 9007199254740992) \<and>
   fadeOpacityD 150 needle (4342451362014509 / 17592186044416) = (140552714881503 / 140737488355328)"
proof -
  have lo: "fadeOpacityD 150 needle (8684902724029017 / 35184372088832) = (8995373752416193 / 9007199254740992)"
    by (simp add: fadeOpacityD_def fadeFractionD_def smoothStepD_def needle_def dsub_def ddiv_def
        dmul_def coerceIn_def ce6_lo_age ce6_lo_frac ce6_lo_sq ce6_lo_dbl ce6_lo_sub ce6_lo_prod)
  have hi: "fadeOpacityD 150 needle (4342451362014509 / 17592186044416) = (140552714881503 / 140737488355328)"
    by (simp add: fadeOpacityD_def fadeFractionD_def smoothStepD_def needle_def dsub_def ddiv_def
        dmul_def coerceIn_def ce6_hi_age ce6_hi_frac ce6_hi_sq ce6_hi_dbl ce6_hi_sub ce6_hi_prod)
  show ?thesis unfolding lo hi by simp
qed

section \<open>The pine generator in binary64\<close>


lemma nextFloatD_fst:
  "fst (nextFloatD nxt rand mn mx) = dadd mn (dmul (fst (nxt rand)) (dsub mx mn))"
  by (simp add: nextFloatD_def split: prod.splits)



















lemma nextIntD_fst: "fst (nextIntD nxt rand mn mx) = \<lfloor>fst (nextFloatD nxt rand mn mx)\<rfloor>"
  by (simp add: nextIntD_def split: prod.splits)






section \<open>The sunflower generator in binary64\<close>

lemma gridSource_next: "gridSource next"
proof -
  have "fst (next rand) \<le> 1 - 1 / 2 ^ 32" for rand
  proof -
    have "next_seed (seed rand) < 4294967296" by (simp add: next_seed_def)
    then have "next_seed (seed rand) \<le> 4294967295" by simp
    then have "real (next_seed (seed rand)) \<le> 4294967295" by linarith
    then show ?thesis by (simp add: next_def Let_def)
  qed
  then show ?thesis unfolding gridSource_def using next_range by blast
qed

lemma petalCount_range:
  assumes "gridSource nxt"
  shows "20 \<le> fst (nextIntD nxt rand 20 30) \<and> fst (nextIntD nxt rand 20 30) < 30"
proof -
  define v where "v = fst (nxt rand)"
  have v: "0 \<le> v" "v \<le> 1 - 1 / 2 ^ 32" using assms by (simp_all add: gridSource_def v_def)
  have ten: "dsub 30 20 = 10" by (simp add: dsub_def fl_numeral_small)
  have top: "fl (42949672950 / 4294967296) = 42949672950 / 4294967296"
    using fl_exact [of 42949672950 "- 32"] by (simp add: power_int_minus)
  have top': "fl (128849018870 / 4294967296) = 128849018870 / 4294967296"
    using fl_exact [of 128849018870 "- 32"] by (simp add: power_int_minus)
  have "0 \<le> v * 10" using v(1) by simp
  then have lo: "0 \<le> dmul v 10" unfolding dmul_def by (rule fl_nonneg)
  have "v * 10 \<le> 42949672950 / 4294967296" using v(2) by simp
  then have "fl (v * 10) \<le> fl (42949672950 / 4294967296)" by (rule fl_mono)
  then have hi: "dmul v 10 \<le> 42949672950 / 4294967296" by (simp only: top dmul_def)
  have "fl 20 \<le> fl (20 + dmul v 10)" using lo by (intro fl_mono) simp
  then have a: "20 \<le> dadd 20 (dmul v 10)" by (simp add: dadd_def fl_numeral_small)
  have "20 + dmul v 10 \<le> 128849018870 / 4294967296" using hi by simp
  then have "fl (20 + dmul v 10) \<le> fl (128849018870 / 4294967296)" by (rule fl_mono)
  then have "dadd 20 (dmul v 10) \<le> 128849018870 / 4294967296" by (simp only: top' dadd_def)
  then have b: "dadd 20 (dmul v 10) < 30" by simp
  have "fst (nextIntD nxt rand 20 30) = \<lfloor>dadd 20 (dmul v 10)\<rfloor>"
    by (simp add: nextIntD_fst nextFloatD_fst ten v_def)
  with a b show ?thesis by (simp add: le_floor_iff floor_less_iff)
qed

text \<open>The delay of the seed at spiral index \<open>i\<close>.\<close>

lemma half_index: "i < 2 ^ 53 \<Longrightarrow> dmul (real i) (dlit (1 / 2)) = real i / 2"
proof -
  assume i: "i < 2 ^ 53"
  have h: "fl (1 / 2) = 1 / 2" using fl_pow2 [of "- 1"] by (simp add: power_int_minus)
  have "\<bar>int i\<bar> \<le> 2 ^ 53" using i by simp
  from fl_exact [OF this, of "- 1"] have "fl (real i / 2) = real i / 2"
    by (simp add: power_int_minus)
  then show ?thesis by (simp add: dmul_def dlit_def h)
qed

lemma seedDist_mono:
  assumes "i \<le> j"
  shows "dadd cdist (dmul (real i) (dlit 0.5)) \<le> dadd cdist (dmul (real j) (dlit 0.5))"
proof -
  have "0 \<le> dlit 0.5" by (simp add: dlit_def fl_nonneg)
  then have "real i * dlit 0.5 \<le> real j * dlit 0.5" using assms by (intro mult_right_mono) simp_all
  then have "dmul (real i) (dlit 0.5) \<le> dmul (real j) (dlit 0.5)"
    unfolding dmul_def by (rule fl_mono)
  then show ?thesis unfolding dadd_def by (intro fl_mono) simp
qed

lemma seedDist_strict:
  assumes "\<bar>cdist\<bar> \<le> 2 ^ 50" and "i < j" and "j < 150"
  shows "dadd cdist (dmul (real i) (dlit 0.5)) < dadd cdist (dmul (real j) (dlit 0.5))"
proof -
  have i: "i < 2 ^ 53" and j: "j < 2 ^ 53" using assms(2,3) by simp_all
  define a where "a = cdist + real i / 2"
  define b where "b = cdist + real j / 2"
  have p: "(2::real) powi (50 + 1) = 2 ^ 51" "(2::real) powi (50 - 53) = 1 / 8"
    by (simp_all add: power_int_minus)
  have "\<bar>a\<bar> < 2 powi (50 + 1)" "\<bar>b\<bar> < 2 powi (50 + 1)"
    using assms unfolding p a_def b_def by simp_all
  from fl_err [OF this(1)] fl_err [OF this(2)]
  have "\<bar>fl a - a\<bar> \<le> 1 / 8" "\<bar>fl b - b\<bar> \<le> 1 / 8" unfolding p by simp_all
  moreover have "a + 1 / 2 \<le> b"
  proof -
    from assms(2) have "real i + 1 \<le> real j" by linarith
    then show ?thesis by (simp add: a_def b_def)
  qed
  ultimately have "fl a < fl b" by linarith
  then show ?thesis
    by (simp add: dadd_def a_def b_def half_index [OF i] half_index [OF j])
qed

lemma sunflowerPetalD_step:
  "\<exists>e rnd'. sunflowerPetalD nxt M en pc cdist i (es, rnd) = (es @ [e], rnd') \<and>
     etype e = Petal \<and> edistFromRoot e = cdist"
proof -
  obtain jit rand1 where d1: "nextFloatD nxt rnd (-10) 10 = (jit, rand1)"
    by (cases "nextFloatD nxt rnd (-10) 10")
  obtain rad rand2 where d2: "nextFloatD nxt rand1 35 45 = (rad, rand2)"
    by (cases "nextFloatD nxt rand1 35 45")
  show ?thesis
    by (simp add: sunflowerPetalD_def Let_def d1 d2)
qed

lemma sunflowerSeedD_step:
  "\<exists>e rnd'. sunflowerSeedD nxt M en cdist i (es, rnd) = (es @ [e], rnd') \<and>
     etype e = Seed \<and> edistFromRoot e = dadd cdist (dmul (real i) (dlit 0.5))"
proof -
  obtain rad rand1 where d1: "nextFloatD nxt rnd 6 9 = (rad, rand1)"
    by (cases "nextFloatD nxt rnd 6 9")
  show ?thesis
    by (simp add: sunflowerSeedD_def Let_def d1)
qed

lemma sunflowerHeadD_shape:
  "\<exists>petals seeds rnd'.
     sunflowerHeadD nxt M rand en cdist = (petals @ seeds, rnd') \<and>
     length petals = nat (fst (nextIntD nxt rand 20 30)) \<and>
     (\<forall>e \<in> set petals. etype e = Petal \<and> edistFromRoot e = cdist) \<and>
     length seeds = seedCount \<and>
     (\<forall>e \<in> set seeds. etype e = Seed) \<and>
     map edistFromRoot seeds = map (\<lambda>i. dadd cdist (dmul (real i) (dlit 0.5))) [0..<seedCount]"
proof -
  obtain pc rand1 where c: "nextIntD nxt rand 20 30 = (pc, rand1)"
    by (cases "nextIntD nxt rand 20 30")
  from fold_append_one [of "sunflowerPetalD nxt M en pc cdist"
      "\<lambda>i e. etype e = Petal \<and> edistFromRoot e = cdist" "[0..<nat pc]" "[]" rand1,
      OF sunflowerPetalD_step]
  obtain petals rnd1 where
    p1: "fold (sunflowerPetalD nxt M en pc cdist) [0..<nat pc] ([], rand1) = (petals, rnd1)"
    and p2: "length petals = nat pc"
    and p3: "\<forall>k < nat pc. etype (petals ! k) = Petal \<and> edistFromRoot (petals ! k) = cdist"
    by auto
  from fold_append_one [of "sunflowerSeedD nxt M en cdist"
      "\<lambda>i e. etype e = Seed \<and> edistFromRoot e = dadd cdist (dmul (real i) (dlit 0.5))"
      "[0..<seedCount]" petals rnd1, OF sunflowerSeedD_step]
  obtain seeds rnd2 where
    s1: "fold (sunflowerSeedD nxt M en cdist) [0..<seedCount] (petals, rnd1) = (petals @ seeds, rnd2)"
    and s2: "length seeds = seedCount"
    and s3: "\<forall>k < seedCount. etype (seeds ! k) = Seed
               \<and> edistFromRoot (seeds ! k) = dadd cdist (dmul (real k) (dlit 0.5))"
    by auto
  have head: "sunflowerHeadD nxt M rand en cdist = (petals @ seeds, rnd2)"
    by (simp add: sunflowerHeadD_def c p1 s1)
  have pet: "\<forall>e \<in> set petals. etype e = Petal \<and> edistFromRoot e = cdist"
    using p2 p3 by (auto simp: in_set_conv_nth)
  have sd: "\<forall>e \<in> set seeds. etype e = Seed"
    using s2 s3 by (auto simp: in_set_conv_nth)
  have dists: "map edistFromRoot seeds
                 = map (\<lambda>i. dadd cdist (dmul (real i) (dlit 0.5))) [0..<seedCount]"
    using s2 s3 by (auto intro!: nth_equalityI)
  from head p2 pet s2 sd dists c show ?thesis by auto
qed

lemma sunflowerD_head:
  "\<exists>petals seeds.
     children (fst (generateSunflowerD nxt M rand st len angle 0 cdist)) = [] \<and>
     entities (fst (generateSunflowerD nxt M rand st len angle 0 cdist)) = petals @ seeds \<and>
     length petals
       = nat (fst (nextIntD nxt (snd (snd (snd (sunflowerSegmentD nxt M rand st len angle 0)))) 20 30)) \<and>
     (\<forall>e \<in> set petals. etype e = Petal) \<and>
     length seeds = 150 \<and>
     (\<forall>e \<in> set seeds. etype e = Seed) \<and>
     map edistFromRoot seeds = map (\<lambda>i. dadd cdist (dmul (real i) (dlit 0.5))) [0..<150]"
proof -
  obtain en ctl stroke rand3 where
    seg: "sunflowerSegmentD nxt M rand st len angle 0 = (en, ctl, stroke, rand3)"
    by (cases "sunflowerSegmentD nxt M rand st len angle 0") auto
  from sunflowerHeadD_shape [of nxt M rand3 en cdist]
  obtain petals seeds rnd' where
    head: "sunflowerHeadD nxt M rand3 en cdist = (petals @ seeds, rnd')"
    and lp: "length petals = nat (fst (nextIntD nxt rand3 20 30))"
    and pet: "\<forall>e \<in> set petals. etype e = Petal \<and> edistFromRoot e = cdist"
    and ls: "length seeds = seedCount"
    and sd: "\<forall>e \<in> set seeds. etype e = Seed"
    and dists: "map edistFromRoot seeds
                  = map (\<lambda>i. dadd cdist (dmul (real i) (dlit 0.5))) [0..<seedCount]"
    by blast
  have gen: "fst (generateSunflowerD nxt M rand st len angle 0 cdist)
               = Branch st en stroke ctl len cdist [] (petals @ seeds)"
    by (subst generateSunflowerD.simps) (simp add: seg head)
  show ?thesis
    by (rule exI [of _ petals], rule exI [of _ seeds])
       (use gen lp pet ls sd dists in \<open>simp add: seg seedCount_def\<close>)
qed

lemma seedDists_sorted:
  "sorted (map (\<lambda>i. dadd cdist (dmul (real i) (dlit 0.5))) [0..<n])"
proof -
  have "sorted_wrt (\<lambda>i j. dadd cdist (dmul (real i) (dlit 0.5)) \<le> dadd cdist (dmul (real j) (dlit 0.5)))
          [0..<n]"
    by (rule sorted_wrt_mono_rel [OF _ sorted_wrt_upt]) (use seedDist_mono in auto)
  then show ?thesis by (simp add: sorted_wrt_map)
qed

lemma seedDists_strict:
  assumes "\<bar>cdist\<bar> \<le> 2 ^ 50"
  shows "sorted_wrt (<) (map (\<lambda>i. dadd cdist (dmul (real i) (dlit 0.5))) [0..<150])"
proof -
  have "sorted_wrt (\<lambda>i j. dadd cdist (dmul (real i) (dlit 0.5)) < dadd cdist (dmul (real j) (dlit 0.5)))
          [0..<150]"
    by (rule sorted_wrt_mono_rel [OF _ sorted_wrt_upt]) (use seedDist_strict [OF assms] in auto)
  then show ?thesis by (simp add: sorted_wrt_map)
qed


text \<open>
  C8, as the code has it: called with \<open>segmentsLeft = 0\<close> the sunflower generator
  returns a branch without children whose entities are \<open>petalCount\<close> petals followed by
  150 seeds, where \<open>petalCount\<close> is the \<open>nextInt(20, 30)\<close> drawn after the three draws
  of the segment (between 20 and 29 for draws of at most \<open>1 - 2^-32\<close>); the seed at
  spiral index \<open>i\<close> has the rounded sum \<open>currentDist + i * 0.5\<close> as its
  \<open>distFromRoot\<close>.  These values never decrease with the index, and they increase
  strictly and are pairwise distinct when \<open>currentDist\<close> is at most \<open>2^50\<close> in
  absolute value.
\<close>

theorem sunflower_head_rounded:
  "\<exists>petals seeds petalCount.
     petalCount
       = fst (nextIntD nxt (snd (snd (snd (sunflowerSegmentD nxt M rand st len angle 0)))) 20 30) \<and>
     (gridSource nxt \<longrightarrow> 20 \<le> petalCount \<and> petalCount < 30) \<and>
     children (fst (generateSunflowerD nxt M rand st len angle 0 cdist)) = [] \<and>
     entities (fst (generateSunflowerD nxt M rand st len angle 0 cdist)) = petals @ seeds \<and>
     length petals = nat petalCount \<and>
     (\<forall>e \<in> set petals. etype e = Petal) \<and>
     length seeds = 150 \<and>
     (\<forall>e \<in> set seeds. etype e = Seed) \<and>
     map edistFromRoot seeds = map (\<lambda>i. dadd cdist (dmul (real i) (dlit 0.5))) [0..<150] \<and>
     sorted (map edistFromRoot seeds) \<and>
     (\<bar>cdist\<bar> \<le> 2 ^ 50 \<longrightarrow>
        sorted_wrt (<) (map edistFromRoot seeds) \<and> distinct (map edistFromRoot seeds))"
proof -
  from sunflowerD_head [of nxt M rand st len angle cdist]
  obtain petals seeds where
    h: "children (fst (generateSunflowerD nxt M rand st len angle 0 cdist)) = []"
       "entities (fst (generateSunflowerD nxt M rand st len angle 0 cdist)) = petals @ seeds"
       "length petals
          = nat (fst (nextIntD nxt (snd (snd (snd (sunflowerSegmentD nxt M rand st len angle 0)))) 20 30))"
       "\<forall>e \<in> set petals. etype e = Petal"
       "length seeds = 150"
       "\<forall>e \<in> set seeds. etype e = Seed"
    and d: "map edistFromRoot seeds = map (\<lambda>i. dadd cdist (dmul (real i) (dlit 0.5))) [0..<150]"
    by blast
  have srt: "sorted (map edistFromRoot seeds)"
    unfolding d by (rule seedDists_sorted)
  have str: "sorted_wrt (<) (map edistFromRoot seeds) \<and> distinct (map edistFromRoot seeds)"
    if "\<bar>cdist\<bar> \<le> 2 ^ 50"
    using seedDists_strict [OF that] unfolding d by (simp add: strict_sorted_iff)
  show ?thesis
    by (rule exI [of _ petals], rule exI [of _ seeds],
        rule exI [of _ "fst (nextIntD nxt (snd (snd (snd (sunflowerSegmentD nxt M rand st len angle 0)))) 20 30)"])
       (use h d srt str petalCount_range [of nxt] in blast)
qed

lemma fl_petal_draw: "fl (2389658235 / 1073741824) = 2389658235 / 1073741824"
  using fl_exact [of 2389658235 "- 30"] by (simp add: power_int_minus)

lemma fl_petal_count: "fl (23864494715 / 1073741824) = 23864494715 / 1073741824"
  using fl_exact [of 23864494715 "- 30"] by (simp add: power_int_minus)

lemma headAt_petalCount:
  "fst (nextIntD next (snd (snd (snd (sunflowerSegmentD next roundedMath \<lparr>seed = 42\<rparr> (Vector2 0 0) 120
          (-90) 0)))) 20 30) = 22"
proof -
  have r3: "snd (snd (snd (sunflowerSegmentD next roundedMath \<lparr>seed = 42\<rparr> (Vector2 0 0) 120 (-90) 0)))
              = \<lparr>seed = 2479403867\<rparr>"
    by (simp add: sunflowerSegmentD_def nextFloatD_def draws_from_42 Let_def)
  show ?thesis
    unfolding r3
    by (simp add: nextIntD_fst nextFloatD_fst draws_from_42 dadd_def dmul_def dsub_def
          fl_numeral_small fl_petal_draw fl_petal_count)
qed

lemma headAt_entities:
  "\<exists>petals seeds.
     children (headAt cdist) = [] \<and> entities (headAt cdist) = petals @ seeds \<and>
     length petals = 22 \<and> length seeds = 150 \<and> seedsOf (headAt cdist) = seeds \<and>
     map edistFromRoot seeds = map (\<lambda>i. dadd cdist (dmul (real i) (dlit 0.5))) [0..<150]"
proof -
  from sunflowerD_head [of "next" roundedMath "\<lparr>seed = 42\<rparr>" "Vector2 0 0" 120 "-90" cdist]
  obtain petals seeds where
    h: "children (headAt cdist) = []" "entities (headAt cdist) = petals @ seeds"
       "length petals = 22" "\<forall>e \<in> set petals. etype e = Petal" "length seeds = 150"
       "\<forall>e \<in> set seeds. etype e = Seed"
       "map edistFromRoot seeds = map (\<lambda>i. dadd cdist (dmul (real i) (dlit 0.5))) [0..<150]"
    unfolding headAt_def headAt_petalCount by auto
  have "filter (\<lambda>e. etype e = Seed) petals = []" using h(4) by (auto simp: filter_empty_conv)
  moreover have "filter (\<lambda>e. etype e = Seed) seeds = seeds" using h(6) by (auto simp: filter_id_conv)
  ultimately have "seedsOf (headAt cdist) = seeds" by (simp add: seedsOf_def h(2))
  with h show ?thesis by blast
qed

theorem sunflower_head_rounded_witness:
  "gridSource next \<and> \<bar>0::real\<bar> \<le> 2 ^ 50 \<and>
   children (headAt 0) = [] \<and>
   length (entities (headAt 0)) = 22 + 150 \<and>
   map edistFromRoot (drop 22 (entities (headAt 0))) = map (\<lambda>i. real i / 2) [0..<150] \<and>
   distinct (map edistFromRoot (drop 22 (entities (headAt 0))))"
proof -
  from sunflower_head_rounded [of "next" roundedMath "\<lparr>seed = 42\<rparr>" "Vector2 0 0" 120 "-90" 0]
  obtain petals seeds where
    h: "children (headAt 0) = []" "entities (headAt 0) = petals @ seeds"
       "length petals = 22" "length seeds = 150"
       "map edistFromRoot seeds = map (\<lambda>i. dadd 0 (dmul (real i) (dlit 0.5))) [0..<150]"
       "distinct (map edistFromRoot seeds)"
    unfolding headAt_petalCount headAt_def by auto
  have "dadd 0 (dmul (real i) (dlit 0.5)) = real i / 2" if "i < 150" for i
  proof -
    from that have i: "i < 2 ^ 53" by simp
    have "\<bar>int i\<bar> \<le> 2 ^ 53" using i by simp
    from fl_exact [OF this, of "- 1"] have "fl (real i / 2) = real i / 2"
      by (simp add: power_int_minus)
    then show ?thesis by (simp add: dadd_def half_index [OF i])
  qed
  then have "map (\<lambda>i. dadd 0 (dmul (real i) (dlit 0.5))) [0..<150] = map (\<lambda>i. real i / 2) [0..<150]"
    by (intro map_cong) auto
  with h gridSource_next show ?thesis by simp
qed

text \<open>
  At a distance of \<open>2^53\<close> the steps of one half are absorbed by the rounding: the seeds
  of index 0 and 1 have the same \<open>distFromRoot\<close>.
\<close>

lemma fl_2p53_half: "fl (18014398509481985 / 2) = 9007199254740992"
  by (subst fl_eval [of 53]) (simp_all add: rne_def)

theorem sunflower_head_counterexample:
  "length (seedsOf (headAt 9007199254740992)) = 150 \<and>
   edistFromRoot (seedsOf (headAt 9007199254740992) ! 0) = 9007199254740992 \<and>
   edistFromRoot (seedsOf (headAt 9007199254740992) ! 1) = 9007199254740992 \<and>
   \<not> distinct (map edistFromRoot (seedsOf (headAt 9007199254740992)))"
proof -
  define seeds where "seeds = seedsOf (headAt 9007199254740992)"
  from headAt_entities [of 9007199254740992]
  have len: "length seeds = 150"
    and d: "map edistFromRoot seeds
              = map (\<lambda>i. dadd 9007199254740992 (dmul (real i) (dlit 0.5))) [0..<150]"
    unfolding seeds_def by auto
  have big: "fl 9007199254740992 = 9007199254740992"
    using fl_pow2 [of 53] by simp
  have "map edistFromRoot seeds ! 0 = 9007199254740992"
    unfolding d by (simp add: dadd_def dmul_def big)
  then have e0: "edistFromRoot (seeds ! 0) = 9007199254740992" using len by simp
  have half: "fl (1 / 2) = 1 / 2"
    using fl_pow2 [of "- 1"] by (simp add: power_int_minus)
  have "map edistFromRoot seeds ! 1 = 9007199254740992"
    unfolding d by (simp add: dadd_def dmul_def dlit_def half fl_2p53_half)
  then have e1: "edistFromRoot (seeds ! 1) = 9007199254740992" using len by simp
  have "\<not> distinct (map edistFromRoot seeds)"
  proof
    assume "distinct (map edistFromRoot seeds)"
    then have "map edistFromRoot seeds ! 0 \<noteq> map edistFromRoot seeds ! 1"
      using len by (simp add: distinct_conv_nth)
    with e0 e1 len show False by simp
  qed
  with len e0 e1 show ?thesis unfolding seeds_def by simp
qed

section \<open>Two runs of a generator give the same structure\<close>

lemma nextFloatD_follows:
  assumes "follows \<alpha> n1 n2"
  shows "nextFloatD n2 (\<alpha> s) mn mx = (case nextFloatD n1 s mn mx of (v, s') \<Rightarrow> (v, \<alpha> s'))"
  using assms by (simp add: follows_def nextFloatD_def split: prod.splits)

lemma nextIntD_follows:
  assumes "follows \<alpha> n1 n2"
  shows "nextIntD n2 (\<alpha> s) mn mx = (case nextIntD n1 s mn mx of (v, s') \<Rightarrow> (v, \<alpha> s'))"
  by (simp add: nextIntD_def nextFloatD_follows [OF assms] split: prod.splits)

lemma nextFloatD_follows_eq:
  assumes "follows \<alpha> n1 n2" and "nextFloatD n1 s mn mx = (v, s')"
  shows "nextFloatD n2 (\<alpha> s) mn mx = (v, \<alpha> s')"
  by (simp add: nextFloatD_follows [OF assms(1)] assms(2))

lemma pineEntityD_follows:
  assumes "follows \<alpha> n1 n2"
  shows "pineEntityD n2 (\<alpha> s) st en len depth cdist
           = (case pineEntityD n1 s st en len depth cdist of (e, s') \<Rightarrow> (e, \<alpha> s'))"
proof -
  note f = nextFloatD_follows_eq [OF assms]
  obtain r0 s1 where d1: "nextFloatD n1 s 15 25 = (r0, s1)" by (cases "nextFloatD n1 s 15 25")
  obtain t s2 where d2: "nextFloatD n1 s1 (dlit 0.1) 1 = (t, s2)"
    by (cases "nextFloatD n1 s1 (dlit 0.1) 1")
  obtain ox s3 where d3: "nextFloatD n1 s2 (-15) 15 = (ox, s3)"
    by (cases "nextFloatD n1 s2 (-15) 15")
  obtain oy s4 where d4: "nextFloatD n1 s3 (-15) 15 = (oy, s4)"
    by (cases "nextFloatD n1 s3 (-15) 15")
  obtain c s5 where d5: "nextFloatD n1 s4 0 1 = (c, s5)" by (cases "nextFloatD n1 s4 0 1")
  define cone where "cone = (depth \<le> 4 \<and> c > dlit 0.92)"
  define s5' where "s5' = (if depth \<le> 4 then s5 else s4)"
  obtain c1 s6 where d6: "nextFloatD n1 s5' 0 (if cone then 40 else 20) = (c1, s6)"
    by (cases "nextFloatD n1 s5' 0 (if cone then 40 else 20)")
  obtain c2 s7 where d7: "nextFloatD n1 s6 0 (if cone then 30 else 40) = (c2, s7)"
    by (cases "nextFloatD n1 s6 0 (if cone then 30 else 40)")
  obtain c3 s8 where d8: "nextFloatD n1 s7 0 20 = (c3, s8)" by (cases "nextFloatD n1 s7 0 20")
  note ds = d1 d2 d3 d4 d5 d6 d7 d8
  note es = f [OF d1] f [OF d2] f [OF d3] f [OF d4] f [OF d5] f [OF d6] f [OF d7] f [OF d8]
  consider "depth \<le> 4" "c > dlit 0.92" | "depth \<le> 4" "\<not> c > dlit 0.92" | "\<not> depth \<le> 4"
    by blast
  then show ?thesis
  proof cases
    case 1
    then have "cone" "s5' = s5" by (simp_all add: cone_def s5'_def)
    with 1 ds es show ?thesis by (simp add: pineEntityD_def Let_def)
  next
    case 2
    then have "\<not> cone" "s5' = s5" by (simp_all add: cone_def s5'_def)
    with 2 ds es show ?thesis by (simp add: pineEntityD_def Let_def)
  next
    case 3
    then have "\<not> cone" "s5' = s4" by (simp_all add: cone_def s5'_def)
    with 3 ds es show ?thesis by (simp add: pineEntityD_def Let_def)
  qed
qed

lemma fold_follows:
  assumes "\<And>i acc s. F2 i (acc, \<alpha> s) = (case F1 i (acc, s) of (acc', s') \<Rightarrow> (acc', \<alpha> s'))"
  shows "fold F2 xs (acc, \<alpha> s) = (case fold F1 xs (acc, s) of (acc', s') \<Rightarrow> (acc', \<alpha> s'))"
proof (induction xs arbitrary: acc s)
  case Nil
  show ?case by simp
next
  case (Cons i xs)
  obtain acc1 s1 where f: "F1 i (acc, s) = (acc1, s1)" by (cases "F1 i (acc, s)")
  show ?case by (simp add: assms f Cons.IH)
qed

lemma pineEntitiesD_follows:
  assumes "follows \<alpha> n1 n2"
  shows "pineEntitiesD n2 (\<alpha> s) st en len depth cdist
           = (case pineEntitiesD n1 s st en len depth cdist of (es, s') \<Rightarrow> (es, \<alpha> s'))"
proof (cases "depth \<le> 5")
  case False
  then show ?thesis by (simp add: pineEntitiesD_def)
next
  case True
  obtain count s1 where c: "nextIntD n1 s 6 10 = (count, s1)" by (cases "nextIntD n1 s 6 10")
  have "fold (\<lambda>i (es, rnd). let (e, rnd') = pineEntityD n2 rnd st en len depth cdist
                             in (es @ [e], rnd')) [0..<nat count] ([], \<alpha> s1)
        = (case fold (\<lambda>i (es, rnd). let (e, rnd') = pineEntityD n1 rnd st en len depth cdist
                             in (es @ [e], rnd')) [0..<nat count] ([], s1)
           of (es, s') \<Rightarrow> (es, \<alpha> s'))"
    by (rule fold_follows) (simp add: pineEntityD_follows [OF assms] split: prod.splits)
  with True show ?thesis
    by (simp add: pineEntitiesD_def nextIntD_follows [OF assms] c)
qed

lemma pineSegmentD_follows:
  assumes "follows \<alpha> n1 n2"
  shows "pineSegmentD n2 M (\<alpha> s) st len angle depth
           = (case pineSegmentD n1 M s st len angle depth of (en, ctl, stroke, s') \<Rightarrow>
                (en, ctl, stroke, \<alpha> s'))"
  by (simp add: pineSegmentD_def nextFloatD_follows [OF assms] Let_def split: prod.splits)

lemma leaderParamsD_follows:
  assumes "follows \<alpha> n1 n2"
  shows "leaderParamsD n2 (\<alpha> s) angle len
           = (case leaderParamsD n1 s angle len of (ang, nl, s') \<Rightarrow> (ang, nl, \<alpha> s'))"
  by (simp add: leaderParamsD_def nextFloatD_follows [OF assms] Let_def split: prod.splits)

lemma sideParamsD_follows:
  assumes "follows \<alpha> n1 n2"
  shows "sideParamsD n2 (\<alpha> s) angle len
           = (case sideParamsD n1 s angle len of (ang, nl, s') \<Rightarrow> (ang, nl, \<alpha> s'))"
  by (simp add: sideParamsD_def nextFloatD_follows [OF assms] Let_def split: prod.splits)

lemma generateFullTreeD_follows:
  assumes "follows \<alpha> n1 n2"
  shows "generateFullTreeD n2 M (\<alpha> s) st len angle depth cdist
           = (case generateFullTreeD n1 M s st len angle depth cdist of (t, s') \<Rightarrow> (t, \<alpha> s'))"
proof (induction "nat depth" arbitrary: depth s st len angle cdist rule: less_induct)
  case less
  obtain en ctl stroke s3 where
    seg: "pineSegmentD n1 M s st len angle depth = (en, ctl, stroke, s3)"
    by (cases "pineSegmentD n1 M s st len angle depth") auto
  show ?case
  proof (cases "0 < depth")
    case False
    then show ?thesis
      by (subst generateFullTreeD.simps, subst (2) generateFullTreeD.simps)
         (simp add: pineSegmentD_follows [OF assms] seg pineEntitiesD_follows [OF assms]
            split: prod.splits)
  next
    case True
    then have lt: "nat (depth - 1) < nat depth" by simp
    note IH = less.hyps [OF lt]
    obtain la ll s4 where lp: "leaderParamsD n1 s3 angle len = (la, ll, s4)"
      by (cases "leaderParamsD n1 s3 angle len") auto
    obtain leader s5 where
      ld: "generateFullTreeD n1 M s4 en ll la (depth - 1) (dadd cdist len) = (leader, s5)"
      by (cases "generateFullTreeD n1 M s4 en ll la (depth - 1) (dadd cdist len)")
    obtain cnt s6 where ct: "nextIntD n1 s5 1 3 = (cnt, s6)" by (cases "nextIntD n1 s5 1 3")
    define F1 where "F1 = (\<lambda>(i::nat) (cs, rnd).
                     let (newAngle, newLength, rndC) = sideParamsD n1 rnd angle len
                     in if depth > 1 then
                          (let (c, rndD) =
                                 generateFullTreeD n1 M rndC en newLength newAngle (depth - 1)
                                   (dadd cdist len)
                           in (cs @ [c], rndD))
                        else (cs, rndC))"
    define F2 where "F2 = (\<lambda>(i::nat) (cs, rnd).
                     let (newAngle, newLength, rndC) = sideParamsD n2 rnd angle len
                     in if depth > 1 then
                          (let (c, rndD) =
                                 generateFullTreeD n2 M rndC en newLength newAngle (depth - 1)
                                   (dadd cdist len)
                           in (cs @ [c], rndD))
                        else (cs, rndC))"
    define res1 where "res1 = fold F1 [0..<nat cnt] ([leader], s6)"
    define res2 where "res2 = fold F2 [0..<nat cnt] ([leader], \<alpha> s6)"
    have side: "res2 = (case res1 of (cs, s') \<Rightarrow> (cs, \<alpha> s'))"
      unfolding res1_def res2_def
      by (rule fold_follows)
         (simp add: F1_def F2_def sideParamsD_follows [OF assms] IH split: prod.splits)
    have l: "generateFullTreeD n1 M s st len angle depth cdist
               = (case pineEntitiesD n1 (snd res1) st en len depth cdist of (ents, s') \<Rightarrow>
                    (Branch st en stroke ctl len cdist (fst res1) ents, s'))"
      using True
      by (subst generateFullTreeD.simps)
         (simp add: seg lp ld ct res1_def F1_def split: prod.splits)
    have r: "generateFullTreeD n2 M (\<alpha> s) st len angle depth cdist
               = (case pineEntitiesD n2 (snd res2) st en len depth cdist of (ents, s') \<Rightarrow>
                    (Branch st en stroke ctl len cdist (fst res2) ents, s'))"
      using True
      by (subst generateFullTreeD.simps)
         (simp add: pineSegmentD_follows [OF assms] seg leaderParamsD_follows [OF assms] lp
            IH ld nextIntD_follows [OF assms] ct res2_def F2_def split: prod.splits)
    show ?thesis
      unfolding l r side by (simp add: pineEntitiesD_follows [OF assms] split: prod.splits)
  qed
qed


lemma sunflowerSegmentD_follows:
  assumes "follows \<alpha> n1 n2"
  shows "sunflowerSegmentD n2 M (\<alpha> s) st len angle segmentsLeft
           = (case sunflowerSegmentD n1 M s st len angle segmentsLeft of (en, ctl, stroke, s') \<Rightarrow>
                (en, ctl, stroke, \<alpha> s'))"
  by (simp add: sunflowerSegmentD_def nextFloatD_follows [OF assms] Let_def split: prod.splits)

lemma sunflowerLeafD_follows:
  assumes "follows \<alpha> n1 n2"
  shows "sunflowerLeafD n2 (\<alpha> s) st en len segmentsLeft cdist
           = (case sunflowerLeafD n1 s st en len segmentsLeft cdist of (e, s') \<Rightarrow> (e, \<alpha> s'))"
  by (simp add: sunflowerLeafD_def nextFloatD_follows [OF assms] Let_def split: prod.splits)

lemma sunflowerPetalD_follows:
  assumes "follows \<alpha> n1 n2"
  shows "sunflowerPetalD n2 M en pc cdist i (es, \<alpha> s)
           = (case sunflowerPetalD n1 M en pc cdist i (es, s) of (es', s') \<Rightarrow> (es', \<alpha> s'))"
  by (simp add: sunflowerPetalD_def nextFloatD_follows [OF assms] Let_def split: prod.splits)

lemma sunflowerSeedD_follows:
  assumes "follows \<alpha> n1 n2"
  shows "sunflowerSeedD n2 M en cdist i (es, \<alpha> s)
           = (case sunflowerSeedD n1 M en cdist i (es, s) of (es', s') \<Rightarrow> (es', \<alpha> s'))"
  by (simp add: sunflowerSeedD_def nextFloatD_follows [OF assms] Let_def split: prod.splits)

lemma sunflowerHeadD_follows:
  assumes "follows \<alpha> n1 n2"
  shows "sunflowerHeadD n2 M (\<alpha> s) en cdist
           = (case sunflowerHeadD n1 M s en cdist of (es, s') \<Rightarrow> (es, \<alpha> s'))"
proof -
  obtain pc s1 where c: "nextIntD n1 s 20 30 = (pc, s1)" by (cases "nextIntD n1 s 20 30")
  obtain petals s2 where
    p: "fold (sunflowerPetalD n1 M en pc cdist) [0..<nat pc] ([], s1) = (petals, s2)"
    by (cases "fold (sunflowerPetalD n1 M en pc cdist) [0..<nat pc] ([], s1)")
  have p2: "fold (sunflowerPetalD n2 M en pc cdist) [0..<nat pc] ([], \<alpha> s1) = (petals, \<alpha> s2)"
    using fold_follows [of "sunflowerPetalD n2 M en pc cdist" \<alpha> "sunflowerPetalD n1 M en pc cdist"
        "[0..<nat pc]" "[]" s1, OF sunflowerPetalD_follows [OF assms]]
    by (simp add: p)
  have sd: "fold (sunflowerSeedD n2 M en cdist) [0..<seedCount] (petals, \<alpha> s2)
          = (case fold (sunflowerSeedD n1 M en cdist) [0..<seedCount] (petals, s2) of
               (es, s') \<Rightarrow> (es, \<alpha> s'))"
    by (rule fold_follows) (rule sunflowerSeedD_follows [OF assms])
  show ?thesis
    by (simp add: sunflowerHeadD_def nextIntD_follows [OF assms] c p p2 sd)
qed

lemma generateSunflowerD_follows:
  assumes "follows \<alpha> n1 n2"
  shows "generateSunflowerD n2 M (\<alpha> s) st len angle segmentsLeft cdist
           = (case generateSunflowerD n1 M s st len angle segmentsLeft cdist of
                (t, s') \<Rightarrow> (t, \<alpha> s'))"
proof (induction "nat segmentsLeft" arbitrary: segmentsLeft s st len angle cdist rule: less_induct)
  case less
  obtain en ctl stroke s3 where
    seg: "sunflowerSegmentD n1 M s st len angle segmentsLeft = (en, ctl, stroke, s3)"
    by (cases "sunflowerSegmentD n1 M s st len angle segmentsLeft") auto
  show ?case
  proof (cases "0 < segmentsLeft")
    case False
    then show ?thesis
      by (subst generateSunflowerD.simps, subst (2) generateSunflowerD.simps)
         (simp add: sunflowerSegmentD_follows [OF assms] seg sunflowerHeadD_follows [OF assms]
            split: prod.splits)
  next
    case True
    then have lt: "nat (segmentsLeft - 1) < nat segmentsLeft" by simp
    note IH = less.hyps [OF lt]
    show ?thesis
      using True
      by (subst generateSunflowerD.simps, subst (2) generateSunflowerD.simps)
         (simp add: sunflowerSegmentD_follows [OF assms] seg sunflowerLeafD_follows [OF assms]
            nextFloatD_follows [OF assms] IH split: prod.splits)
  qed
qed

text \<open>A run on a source object of the heap follows the run on the state of that object.\<close>

lemma nextH_follows: "follows (\<lambda>h. cells h rand) (nextH rand) next"
  by (simp add: follows_def nextH_def split: prod.splits)

lemma newSeededRandom_cell:
  "cells (snd (newSeededRandom sha256 seedString h)) (fst (newSeededRandom sha256 seedString h))
     = SeededRandom sha256 seedString"
  by (simp add: newSeededRandom_def)

lemma pine_run:
  assumes "newSeededRandom sha256 seedString h = (rand, h')"
  shows "fst (generateFullTreeD (nextH rand) M h' st len angle depth cdist)
           = fst (generateFullTreeD next M (SeededRandom sha256 seedString) st len angle depth cdist)"
proof -
  have c: "cells h' rand = SeededRandom sha256 seedString"
    using newSeededRandom_cell [of sha256 seedString h] assms by simp
  have "generateFullTreeD next M (cells h' rand) st len angle depth cdist
          = (case generateFullTreeD (nextH rand) M h' st len angle depth cdist of
               (t, s') \<Rightarrow> (t, cells s' rand))"
    by (rule generateFullTreeD_follows [OF nextH_follows])
  then show ?thesis unfolding c by (simp split: prod.splits)
qed

lemma sunflower_run:
  assumes "newSeededRandom sha256 seedString h = (rand, h')"
  shows "fst (generateSunflowerD (nextH rand) M h' st len angle segmentsLeft cdist)
           = fst (generateSunflowerD next M (SeededRandom sha256 seedString) st len angle
                    segmentsLeft cdist)"
proof -
  have c: "cells h' rand = SeededRandom sha256 seedString"
    using newSeededRandom_cell [of sha256 seedString h] assms by simp
  have "generateSunflowerD next M (cells h' rand) st len angle segmentsLeft cdist
          = (case generateSunflowerD (nextH rand) M h' st len angle segmentsLeft cdist of
               (t, s') \<Rightarrow> (t, cells s' rand))"
    by (rule generateSunflowerD_follows [OF nextH_follows])
  then show ?thesis unfolding c by (simp split: prod.splits)
qed

lemma pineTwice_eq:
  "pineTwice sha256 seedString M st len angle depth cdist h
     = (fst (generateFullTreeD next M (SeededRandom sha256 seedString) st len angle depth cdist),
        fst (generateFullTreeD next M (SeededRandom sha256 seedString) st len angle depth cdist))"
proof -
  obtain rand1 h1 where n1: "newSeededRandom sha256 seedString h = (rand1, h1)"
    by (cases "newSeededRandom sha256 seedString h")
  obtain tree1 h2 where
    g1: "generateFullTreeD (nextH rand1) M h1 st len angle depth cdist = (tree1, h2)"
    by (cases "generateFullTreeD (nextH rand1) M h1 st len angle depth cdist")
  obtain rand2 h3 where n2: "newSeededRandom sha256 seedString h2 = (rand2, h3)"
    by (cases "newSeededRandom sha256 seedString h2")
  obtain tree2 h4 where
    g2: "generateFullTreeD (nextH rand2) M h3 st len angle depth cdist = (tree2, h4)"
    by (cases "generateFullTreeD (nextH rand2) M h3 st len angle depth cdist")
  from pine_run [OF n1, of M st len angle depth cdist] g1
  have t1: "tree1 = fst (generateFullTreeD next M (SeededRandom sha256 seedString) st len angle depth cdist)"
    by simp
  from pine_run [OF n2, of M st len angle depth cdist] g2
  have t2: "tree2 = fst (generateFullTreeD next M (SeededRandom sha256 seedString) st len angle depth cdist)"
    by simp
  show ?thesis
    by (simp add: pineTwice_def n1 g1 n2 g2 t1 t2)
qed

lemma sunflowerTwice_eq:
  "sunflowerTwice sha256 seedString M st len angle segmentsLeft cdist h
     = (fst (generateSunflowerD next M (SeededRandom sha256 seedString) st len angle segmentsLeft cdist),
        fst (generateSunflowerD next M (SeededRandom sha256 seedString) st len angle segmentsLeft cdist))"
proof -
  obtain rand1 h1 where n1: "newSeededRandom sha256 seedString h = (rand1, h1)"
    by (cases "newSeededRandom sha256 seedString h")
  obtain tree1 h2 where
    g1: "generateSunflowerD (nextH rand1) M h1 st len angle segmentsLeft cdist = (tree1, h2)"
    by (cases "generateSunflowerD (nextH rand1) M h1 st len angle segmentsLeft cdist")
  obtain rand2 h3 where n2: "newSeededRandom sha256 seedString h2 = (rand2, h3)"
    by (cases "newSeededRandom sha256 seedString h2")
  obtain tree2 h4 where
    g2: "generateSunflowerD (nextH rand2) M h3 st len angle segmentsLeft cdist = (tree2, h4)"
    by (cases "generateSunflowerD (nextH rand2) M h3 st len angle segmentsLeft cdist")
  from sunflower_run [OF n1, of M st len angle segmentsLeft cdist] g1
  have t1: "tree1 = fst (generateSunflowerD next M (SeededRandom sha256 seedString) st len angle
                          segmentsLeft cdist)"
    by simp
  from sunflower_run [OF n2, of M st len angle segmentsLeft cdist] g2
  have t2: "tree2 = fst (generateSunflowerD next M (SeededRandom sha256 seedString) st len angle
                          segmentsLeft cdist)"
    by simp
  show ?thesis
    by (simp add: sunflowerTwice_def n1 g1 n2 g2 t1 t2)
qed

text \<open>
  C1: for every seed string, constructing the random source from it and running the
  generator, then doing both a second time in the heap that the first run has left,
  yields two equal structures: the branches with their start, end, control, stroke
  width, length and distance, and the entities with their centre, radius, colours, kind
  and distance.  Both are the structure computed from the state that the seed string
  alone determines, whatever the heap holds.
\<close>

theorem two_runs_identical:
  "fst (pineTwice sha256 seedString M st len angle depth cdist h)
     = snd (pineTwice sha256 seedString M st len angle depth cdist h) \<and>
   fst (pineTwice sha256 seedString M st len angle depth cdist h)
     = fst (generateFullTreeD next M (SeededRandom sha256 seedString) st len angle depth cdist) \<and>
   fst (sunflowerTwice sha256 seedString M st len angle segmentsLeft cdist h)
     = snd (sunflowerTwice sha256 seedString M st len angle segmentsLeft cdist h) \<and>
   fst (sunflowerTwice sha256 seedString M st len angle segmentsLeft cdist h)
     = fst (generateSunflowerD next M (SeededRandom sha256 seedString) st len angle segmentsLeft
              cdist)"
  by (simp add: pineTwice_eq sunflowerTwice_eq)

end
